theory Spec2Isabelle
  imports Main
begin

section \<open>Strings and characters\<close>

text \<open>
  The scripts work on JavaScript strings. They are modelled as \<^typ>\<open>string\<close>, one
  \<^typ>\<open>char\<close> per code unit, which covers every text whose code units are below 256.
  The two quote characters are named, since they cannot be written inside a literal.
\<close>

definition sq :: char where
  "sq = CHR 0x27"

definition dq :: char where
  "dq = CHR 0x22"

definition slash :: char where
  "slash = CHR ''/''"

definition backslash :: char where
  "backslash = CHR 0x5C"

text \<open>\<^verbatim>\<open>s.startsWith(p)\<close> and \<^verbatim>\<open>s.endsWith(p)\<close>.\<close>

definition startsWith :: "string \<Rightarrow> string \<Rightarrow> bool" where
  "startsWith s p = (take (length p) s = p)"

definition endsWith :: "string \<Rightarrow> string \<Rightarrow> bool" where
  "endsWith s p = (length p \<le> length s \<and> drop (length s - length p) s = p)"

text \<open>\<^verbatim>\<open>s.split(c)\<close> for a one-character separator, and \<^verbatim>\<open>xs.join(sep)\<close>.\<close>

fun splitOn :: "char \<Rightarrow> string \<Rightarrow> string list" where
  "splitOn c [] = [[]]"
| "splitOn c (x # xs) =
     (if x = c then [] # splitOn c xs
      else (case splitOn c xs of [] \<Rightarrow> [[x]] | y # ys \<Rightarrow> (x # y) # ys))"

fun joinWith :: "string \<Rightarrow> string list \<Rightarrow> string" where
  "joinWith sep [] = []"
| "joinWith sep [x] = x"
| "joinWith sep (x # y # ys) = x @ sep @ joinWith sep (y # ys)"

section \<open>The POSIX functions of Node's path module\<close>

text \<open>
  \<^verbatim>\<open>normalizeString(path, allowAboveRoot)\<close>: the segments between slashes are read
  left to right; an empty segment and \<^verbatim>\<open>.\<close> are dropped; \<^verbatim>\<open>..\<close> removes the
  last kept segment unless there is none or it is \<^verbatim>\<open>..\<close> itself, in which case it is
  kept when \<open>allowAboveRoot\<close> holds and dropped otherwise.
\<close>

fun normSegs :: "bool \<Rightarrow> string list \<Rightarrow> string list \<Rightarrow> string list" where
  "normSegs allowAboveRoot res [] = res"
| "normSegs allowAboveRoot res (g # gs) =
     (if g = [] \<or> g = ''.'' then normSegs allowAboveRoot res gs
      else if g = ''..'' then
        (if res \<noteq> [] \<and> last res \<noteq> ''..'' then normSegs allowAboveRoot (butlast res) gs
         else if allowAboveRoot then normSegs allowAboveRoot (res @ [''..'']) gs
         else normSegs allowAboveRoot res gs)
      else normSegs allowAboveRoot (res @ [g]) gs)"

definition isAbsolute :: "string \<Rightarrow> bool" where
  "isAbsolute p = (p \<noteq> [] \<and> hd p = slash)"

text \<open>\<^verbatim>\<open>path.normalize(p)\<close>: a trailing slash of the input is kept.\<close>

definition path_normalize :: "string \<Rightarrow> string" where
  "path_normalize p =
     (if p = [] then ''.''
      else
        let isAbs = (hd p = slash);
            trailing = (last p = slash);
            body = joinWith ''/'' (normSegs (\<not> isAbs) [] (splitOn slash p))
        in if body = [] then (if isAbs then ''/'' else if trailing then ''./'' else ''.'')
           else (if isAbs then ''/'' else []) @ body @ (if trailing then ''/'' else []))"

text \<open>\<^verbatim>\<open>path.join(a, b)\<close>: the non-empty arguments joined by a slash, then normalized.\<close>

definition path_join :: "string \<Rightarrow> string \<Rightarrow> string" where
  "path_join a b =
     (let joined = (if a = [] then b else if b = [] then a else a @ ''/'' @ b)
      in if joined = [] then ''.'' else path_normalize joined)"

text \<open>
  \<^verbatim>\<open>path.dirname(p)\<close>: scanning from the end down to index 1, the trailing slashes
  and then the last segment are skipped; the result is the text before the slash found
  there.
\<close>

definition path_dirname :: "string \<Rightarrow> string" where
  "path_dirname p =
     (if p = [] then ''.''
      else
        let hasRoot = (hd p = slash);
            r = dropWhile (\<lambda>c. c \<noteq> slash) (dropWhile (\<lambda>c. c = slash) (rev (tl p)))
        in if r = [] then (if hasRoot then ''/'' else ''.'')
           else if hasRoot \<and> tl r = [] then ''//''
           else hd p # rev (tl r))"

text \<open>\<^verbatim>\<open>path.basename(p)\<close>: the last segment, trailing slashes ignored.\<close>

definition path_basename :: "string \<Rightarrow> string" where
  "path_basename p =
     rev (takeWhile (\<lambda>c. c \<noteq> slash) (dropWhile (\<lambda>c. c = slash) (rev p)))"

text \<open>
  \<^verbatim>\<open>path.resolve(p)\<close>: a path that is not absolute is taken against the working
  directory of the process (an absolute path); the result is absolute, normalized, and
  has no trailing slash. \<open>resolveSegs\<close> gives its segments.
\<close>

definition resolveSegs :: "string \<Rightarrow> string \<Rightarrow> string list" where
  "resolveSegs cwd p =
     normSegs False []
       (splitOn slash (if isAbsolute p then p else if p = [] then cwd else cwd @ ''/'' @ p))"

definition path_resolve :: "string \<Rightarrow> string \<Rightarrow> string" where
  "path_resolve cwd p = ''/'' @ joinWith ''/'' (resolveSegs cwd p)"

text \<open>
  \<^verbatim>\<open>path.relative(from, to)\<close>: both paths are resolved; the segments they share from
  the root are dropped; the result is one \<^verbatim>\<open>..\<close> for each segment left of \<open>from\<close>,
  then the segments left of \<open>to\<close>, joined by slashes (the empty string when the
  resolved paths are equal).
\<close>

fun relSegs :: "string list \<Rightarrow> string list \<Rightarrow> string list" where
  "relSegs [] ys = ys"
| "relSegs (x # xs) [] = replicate (length (x # xs)) ''..''"
| "relSegs (x # xs) (y # ys) =
     (if x = y then relSegs xs ys else replicate (length (x # xs)) ''..'' @ (y # ys))"

definition path_relative :: "string \<Rightarrow> string \<Rightarrow> string \<Rightarrow> string" where
  "path_relative cwd frm to =
     (if frm = to then []
      else joinWith ''/'' (relSegs (resolveSegs cwd frm) (resolveSegs cwd to)))"

section \<open>The directories of a run\<close>

text \<open>
  Each script reads two ambient values: the directory of the script file
  (\<^verbatim>\<open>__dirname\<close>) and, inside \<^verbatim>\<open>path.relative\<close>, the working directory.
\<close>

record host =
  cwd :: string
  script_dirname :: string

definition SRC_DIR :: "host \<Rightarrow> string" where
  "SRC_DIR h = path_join (script_dirname h) ''src''"

definition ASSETS_DIR :: "host \<Rightarrow> string" where
  "ASSETS_DIR h = path_join (SRC_DIR h) ''assets''"

section \<open>getRelativePath\<close>

text \<open>
  migrate-paths.js: the relative path from the directory of the importing file, with
  \<^verbatim>\<open>./\<close> put in front when it does not start with a dot.
\<close>

definition mp_getRelativePath :: "host \<Rightarrow> string \<Rightarrow> string \<Rightarrow> string" where
  "mp_getRelativePath h sourcePath destPath =
     (let sourceDir = path_dirname sourcePath;
          relPath = path_relative (cwd h) sourceDir destPath
      in if \<not> startsWith relPath ''.'' then ''./'' @ relPath else relPath)"

text \<open>
  test-migration-node.mjs and migrate-paths-node.mjs (the same function in both): the
  relative path with every backslash replaced by a slash, and nothing put in front.
\<close>

definition replaceBackslashes :: "string \<Rightarrow> string" where
  "replaceBackslashes s = map (\<lambda>c. if c = backslash then slash else c) s"

definition getRelativePath :: "host \<Rightarrow> string \<Rightarrow> string \<Rightarrow> string" where
  "getRelativePath h sourceFile destinationFile =
     (let sourceDirname = path_dirname sourceFile
      in replaceBackslashes (path_relative (cwd h) sourceDirname destinationFile))"

section \<open>Regular expressions\<close>

text \<open>
  The patterns of the scripts use literals, character classes, greedy repetition of a
  class, one alternation and capture groups. A pattern is a matcher in continuation
  style: it consumes a prefix of the text and hands the rest and the captures so far to
  its continuation; when the continuation fails, a greedy repetition gives back one
  character and tries again, as the backtracking of the JavaScript matcher does.
\<close>

type_synonym caps = "string list"

type_synonym rx_cont = "string \<Rightarrow> caps \<Rightarrow> (string \<times> caps) option"

type_synonym rx = "string \<Rightarrow> caps \<Rightarrow> rx_cont \<Rightarrow> (string \<times> caps) option"

definition lit :: "string \<Rightarrow> rx" where
  "lit l s cs k = (if take (length l) s = l then k (drop (length l) s) cs else None)"

definition one :: "(char \<Rightarrow> bool) \<Rightarrow> rx" where
  "one P s cs k = (case s of [] \<Rightarrow> None | c # r \<Rightarrow> if P c then k r cs else None)"

fun star :: "(char \<Rightarrow> bool) \<Rightarrow> rx" where
  "star P [] cs k = k [] cs"
| "star P (c # r) cs k =
     (if P c then (case star P r cs k of Some res \<Rightarrow> Some res | None \<Rightarrow> k (c # r) cs)
      else k (c # r) cs)"

definition plus :: "(char \<Rightarrow> bool) \<Rightarrow> rx" where
  "plus P s cs k = (case s of [] \<Rightarrow> None | c # r \<Rightarrow> if P c then star P r cs k else None)"

definition seq :: "rx \<Rightarrow> rx \<Rightarrow> rx" where
  "seq a b s cs k = a s cs (\<lambda>s' cs'. b s' cs' k)"

definition alt :: "rx \<Rightarrow> rx \<Rightarrow> rx" where
  "alt a b s cs k = (case a s cs k of Some res \<Rightarrow> Some res | None \<Rightarrow> b s cs k)"

text \<open>A capture group records the text its body consumed.\<close>

definition cap :: "rx \<Rightarrow> rx" where
  "cap a s cs k = a s cs (\<lambda>s' cs'. k s' (cs' @ [take (length s - length s') s]))"

definition eps :: rx where
  "eps s cs k = k s cs"

definition seqs :: "rx list \<Rightarrow> rx" where
  "seqs rs = foldr seq rs eps"

text \<open>One attempt at the start of a text: the rest after the match, and the captures.\<close>

definition rx_exec :: "rx \<Rightarrow> string \<Rightarrow> (string \<times> caps) option" where
  "rx_exec r s = r s [] (\<lambda>s' cs'. Some (s', cs'))"

text \<open>The same attempt, as the length of the match and the captures.\<close>

definition rx_match :: "rx \<Rightarrow> string \<Rightarrow> (nat \<times> caps) option" where
  "rx_match r s =
     (case rx_exec r s of
        None \<Rightarrow> None
      | Some (rest, cs) \<Rightarrow> Some (length s - length rest, cs))"

text \<open>
  The classes \<^verbatim>\<open>\s\<close> (of the code units below 256: tab, line feed, vertical tab,
  form feed, carriage return, space, no-break space), \<^verbatim>\<open>\w\<close>, \<^verbatim>\<open>[a-z]\<close>,
  \<^verbatim>\<open>['"]\<close> and the negated classes of the patterns.
\<close>

definition isSpace :: "char \<Rightarrow> bool" where
  "isSpace c = (c \<in> set [CHR 0x09, CHR 0x0A, CHR 0x0B, CHR 0x0C, CHR 0x0D, CHR 0x20, CHR 0xA0])"

definition isLower :: "char \<Rightarrow> bool" where
  "isLower c = (c \<in> set ''abcdefghijklmnopqrstuvwxyz'')"

definition isWord :: "char \<Rightarrow> bool" where
  "isWord c =
     (c \<in> set ''abcdefghijklmnopqrstuvwxyzABCDEFGHIJKLMNOPQRSTUVWXYZ0123456789_'')"

definition isQuote :: "char \<Rightarrow> bool" where
  "isQuote c = (c = sq \<or> c = dq)"

definition notQuote :: "char \<Rightarrow> bool" where
  "notQuote c = (\<not> isQuote c)"

definition notSemi :: "char \<Rightarrow> bool" where
  "notSemi c = (c \<noteq> CHR '';'')"

definition notRBrace :: "char \<Rightarrow> bool" where
  "notRBrace c = (c \<noteq> CHR ''}'')"

section \<open>String.prototype.replace and String.prototype.match\<close>

text \<open>
  \<^verbatim>\<open>text.replace(regex, callback)\<close> with a global pattern: the text is scanned from
  the left; where the pattern matches, the callback's result stands for the match and
  the scan goes on after it (one character further after an empty match); every other
  character is copied.
\<close>

fun replaceAll :: "rx \<Rightarrow> (string \<Rightarrow> caps \<Rightarrow> string) \<Rightarrow> string \<Rightarrow> string" where
  "replaceAll r f [] = (case rx_match r [] of None \<Rightarrow> [] | Some (n, cs) \<Rightarrow> f [] cs)"
| "replaceAll r f (c # t) =
     (case rx_match r (c # t) of
        None \<Rightarrow> c # replaceAll r f t
      | Some (n, cs) \<Rightarrow>
          if n = 0 then f [] cs @ c # replaceAll r f t
          else f (take n (c # t)) cs @ replaceAll r f (drop (n - 1) t))"

text \<open>The same scan with a callback that also updates a state (a list it pushes to).\<close>

fun replaceAllSt ::
  "rx \<Rightarrow> (string \<Rightarrow> caps \<Rightarrow> 'st \<Rightarrow> string \<times> 'st) \<Rightarrow> string \<Rightarrow> 'st \<Rightarrow> string \<times> 'st" where
  "replaceAllSt r f [] st =
     (case rx_match r [] of None \<Rightarrow> ([], st) | Some (n, cs) \<Rightarrow> f [] cs st)"
| "replaceAllSt r f (c # t) st =
     (case rx_match r (c # t) of
        None \<Rightarrow> (let (out, st') = replaceAllSt r f t st in (c # out, st'))
      | Some (n, cs) \<Rightarrow>
          if n = 0 then
            (let (new, st1) = f [] cs st;
                 (out, st2) = replaceAllSt r f t st1
             in (new @ c # out, st2))
          else
            (let (new, st1) = f (take n (c # t)) cs st;
                 (out, st2) = replaceAllSt r f (drop (n - 1) t) st1
             in (new @ out, st2)))"

text \<open>\<^verbatim>\<open>text.match(regex)\<close> with a global pattern: the matches in order, or null.\<close>

fun matchAll :: "rx \<Rightarrow> string \<Rightarrow> string list" where
  "matchAll r [] = (case rx_match r [] of None \<Rightarrow> [] | Some (n, cs) \<Rightarrow> [[]])"
| "matchAll r (c # t) =
     (case rx_match r (c # t) of
        None \<Rightarrow> matchAll r t
      | Some (n, cs) \<Rightarrow>
          if n = 0 then [] # matchAll r t
          else take n (c # t) # matchAll r (drop (n - 1) t))"

definition js_match :: "rx \<Rightarrow> string \<Rightarrow> string list option" where
  "js_match r s = (case matchAll r s of [] \<Rightarrow> None | m # ms \<Rightarrow> Some (m # ms))"

text \<open>
  \<^verbatim>\<open>text.replace(pattern, replacement)\<close> with two strings: the first occurrence of
  the pattern is replaced, and in the replacement \<^verbatim>\<open>$$\<close> stands for a dollar sign,
  \<^verbatim>\<open>$&\<close> for the matched text, \<^verbatim>\<open>$`\<close> for the text before it and \<^verbatim>\<open>$'\<close> for the
  text after it (there are no groups, so a dollar sign before a digit stands for
  itself).
\<close>

fun findSub :: "string \<Rightarrow> string \<Rightarrow> nat option" where
  "findSub pat [] = (if pat = [] then Some 0 else None)"
| "findSub pat (c # t) =
     (if take (length pat) (c # t) = pat then Some 0 else map_option Suc (findSub pat t))"

fun getSubstitution :: "string \<Rightarrow> string \<Rightarrow> string \<Rightarrow> string \<Rightarrow> string" where
  "getSubstitution m b a [] = []"
| "getSubstitution m b a [c] = [c]"
| "getSubstitution m b a (c # d # t) =
     (if c = CHR ''$'' then
        (if d = CHR ''$'' then CHR ''$'' # getSubstitution m b a t
         else if d = CHR ''&'' then m @ getSubstitution m b a t
         else if d = CHR 0x60 then b @ getSubstitution m b a t
         else if d = sq then a @ getSubstitution m b a t
         else c # getSubstitution m b a (d # t))
      else c # getSubstitution m b a (d # t))"

definition str_replace :: "string \<Rightarrow> string \<Rightarrow> string \<Rightarrow> string" where
  "str_replace pat repl s =
     (case findSub pat s of
        None \<Rightarrow> s
      | Some i \<Rightarrow>
          take i s
          @ getSubstitution pat (take i s) (drop (i + length pat) s) repl
          @ drop (i + length pat) s)"

section \<open>migrate-paths.js\<close>

text \<open>
  \<^verbatim>\<open>/@use\s+['"]@\/assets\/styles\/([^'"]+)['"]\s+as\s+([a-z])/g\<close>
\<close>

definition scssAliasPattern :: rx where
  "scssAliasPattern =
     seqs [lit ''@use'', plus isSpace, one isQuote, lit ''@/assets/styles/'',
           cap (plus notQuote), one isQuote, plus isSpace, lit ''as'', plus isSpace,
           cap (one isLower)]"

text \<open>
  The callback of updateScssImports: the path is taken relative to the styles
  directory; a leading underscore and a trailing \<^verbatim>\<open>.scss\<close> of the captured path are
  removed; the statement is written with single quotes.
\<close>

definition mp_scssCallback :: "host \<Rightarrow> string \<Rightarrow> string \<Rightarrow> caps \<Rightarrow> string" where
  "mp_scssCallback h filePath mtch cs =
     (let importPath = cs ! 0;
          alias = cs ! 1;
          ASSET_DIR = path_join (SRC_DIR h) ''assets'';
          relativePath = mp_getRelativePath h filePath (path_join ASSET_DIR ''styles'');
          clean1 = (if startsWith importPath ''_'' then drop 1 importPath else importPath);
          cleanImportPath =
            (if endsWith clean1 ''.scss'' then take (length clean1 - 5) clean1 else clean1)
      in ''@use '' @ [sq] @ relativePath @ ''/'' @ cleanImportPath @ [sq] @ '' as '' @ alias)"

definition mp_updateScssImports :: "host \<Rightarrow> string \<Rightarrow> string \<Rightarrow> string" where
  "mp_updateScssImports h filePath content =
     replaceAll scssAliasPattern (mp_scssCallback h filePath) content"

text \<open>
  \<^verbatim>\<open>/import\s+(?:{[^}]*}|\w+|\*\s+as\s+\w+)\s+from\s+['"]@\/([^'"]+)['"]/g\<close>
\<close>

definition jsAliasPattern :: rx where
  "jsAliasPattern =
     seqs [lit ''import'', plus isSpace,
           alt (seqs [lit ''{'', star notRBrace, lit ''}''])
             (alt (plus isWord)
                (seqs [lit ''*'', plus isSpace, lit ''as'', plus isSpace, plus isWord])),
           plus isSpace, lit ''from'', plus isSpace, one isQuote, lit ''@/'',
           cap (plus notQuote), one isQuote]"

text \<open>
  The callback of updateJsImports: inside the match, the single-quoted and then the
  double-quoted alias path are replaced (two string replacements) by the relative path
  of the directory of the target, a slash and the file name of the target.
\<close>

definition mp_jsCallback :: "host \<Rightarrow> string \<Rightarrow> string \<Rightarrow> caps \<Rightarrow> string" where
  "mp_jsCallback h filePath mtch cs =
     (let importPath = cs ! 0;
          fullImportPath = path_join (SRC_DIR h) importPath;
          relativePath = mp_getRelativePath h filePath (path_dirname fullImportPath);
          importFile = path_basename fullImportPath
      in str_replace ([dq] @ ''@/'' @ importPath @ [dq])
           ([dq] @ relativePath @ ''/'' @ importFile @ [dq])
           (str_replace ([sq] @ ''@/'' @ importPath @ [sq])
              ([sq] @ relativePath @ ''/'' @ importFile @ [sq]) mtch))"

definition mp_updateJsImports :: "host \<Rightarrow> string \<Rightarrow> string \<Rightarrow> string" where
  "mp_updateJsImports h filePath content =
     replaceAll jsAliasPattern (mp_jsCallback h filePath) content"

text \<open>The text migrateAliasToRelative computes for one file, and whether it writes it.\<close>

definition mp_migrateFile :: "host \<Rightarrow> string \<Rightarrow> string \<Rightarrow> string \<times> bool" where
  "mp_migrateFile h file originalContent =
     (let content = mp_updateScssImports h file originalContent;
          content' = mp_updateJsImports h file content
      in (content', content' \<noteq> originalContent))"

section \<open>test-migration-node.mjs and migrate-paths-node.mjs\<close>

text \<open>
  Both scripts use the same two patterns:
  \<^verbatim>\<open>/@use\s+['"]@\/assets\/([^'"]+)['"]\s+as\s+([^;]+);/g\<close> and
  \<^verbatim>\<open>/from\s+['"]@\/([^'"]+)['"]/g\<close>.
\<close>

definition scssRegex :: rx where
  "scssRegex =
     seqs [lit ''@use'', plus isSpace, one isQuote, lit ''@/assets/'',
           cap (plus notQuote), one isQuote, plus isSpace, lit ''as'', plus isSpace,
           cap (plus notSemi), lit '';'']"

definition jsRegex :: rx where
  "jsRegex =
     seqs [lit ''from'', plus isSpace, one isQuote, lit ''@/'', cap (plus notQuote),
           one isQuote]"

text \<open>The new statements, as both scripts build them.\<close>

definition scssNewImport :: "host \<Rightarrow> string \<Rightarrow> caps \<Rightarrow> string" where
  "scssNewImport h filePath cs =
     (let importPath = cs ! 0;
          alias = cs ! 1;
          assetPath = path_join (ASSETS_DIR h) importPath;
          relativePath = getRelativePath h filePath assetPath
      in ''@use '' @ [sq] @ relativePath @ [sq] @ '' as '' @ alias @ '';'')"

definition jsNewImport :: "host \<Rightarrow> string \<Rightarrow> caps \<Rightarrow> string" where
  "jsNewImport h filePath cs =
     (let importPath = cs ! 0;
          importFullPath = path_join (SRC_DIR h) importPath;
          relativePath = getRelativePath h filePath importFullPath
      in ''from '' @ [sq] @ relativePath @ [sq])"

text \<open>
  test-migration-node.mjs (the dry run): each function returns the new content and the
  matches of the pattern in the old content; testMigration chains the two and writes
  nothing.
\<close>

definition dry_updateScssImports ::
  "host \<Rightarrow> string \<Rightarrow> string \<Rightarrow> string \<times> string list option" where
  "dry_updateScssImports h content filePath =
     (replaceAll scssRegex (\<lambda>mtch cs. scssNewImport h filePath cs) content,
      js_match scssRegex content)"

definition dry_updateJsImports ::
  "host \<Rightarrow> string \<Rightarrow> string \<Rightarrow> string \<times> string list option" where
  "dry_updateJsImports h content filePath =
     (replaceAll jsRegex (\<lambda>mtch cs. jsNewImport h filePath cs) content,
      js_match jsRegex content)"

definition dry_testMigration :: "host \<Rightarrow> string \<Rightarrow> string \<Rightarrow> string" where
  "dry_testMigration h fileFullPath content =
     (let (contentWithScssUpdated, modifiedScss) = dry_updateScssImports h content fileFullPath;
          (updatedContent, modifiedJs) = dry_updateJsImports h contentWithScssUpdated fileFullPath
      in updatedContent)"

text \<open>
  migrate-paths-node.mjs (the migration): each callback also pushes the pair of the
  match and the new statement to the list of modifications.
\<close>

type_synonym modification = "string \<times> string"

definition updateScssImports ::
  "host \<Rightarrow> string \<Rightarrow> string \<Rightarrow> string \<times> modification list" where
  "updateScssImports h content filePath =
     replaceAllSt scssRegex
       (\<lambda>mtch cs modifications.
          (let newImport = scssNewImport h filePath cs
           in (newImport, modifications @ [(mtch, newImport)])))
       content []"

definition updateJsImports ::
  "host \<Rightarrow> string \<Rightarrow> string \<Rightarrow> string \<times> modification list" where
  "updateJsImports h content filePath =
     replaceAllSt jsRegex
       (\<lambda>mtch cs modifications.
          (let newImport = jsNewImport h filePath cs
           in (newImport, modifications @ [(mtch, newImport)])))
       content []"

text \<open>
  What migrateAliasToRelative does with one file: the final content, the two lists of
  modifications, and whether the file is written (only when the content changed).
\<close>

definition migrateFile ::
  "host \<Rightarrow> string \<Rightarrow> string \<Rightarrow> string \<times> modification list \<times> modification list \<times> bool" where
  "migrateFile h filePath content =
     (let (contentWithScssUpdated, scssModifications) = updateScssImports h content filePath;
          (finalContent, jsModifications) = updateJsImports h contentWithScssUpdated filePath
      in (finalContent, scssModifications, jsModifications, content \<noteq> finalContent))"

section \<open>Notions used to state the properties\<close>

text \<open>
  A clean segment is a file or directory name: not empty, not \<^verbatim>\<open>.\<close> or \<^verbatim>\<open>..\<close>, and
  without a slash. \<open>absPath\<close> writes the absolute normalized path with the given
  segments; the paths of the files the scripts visit have this form.
\<close>

definition okSeg :: "string \<Rightarrow> bool" where
  "okSeg g = (g \<noteq> [] \<and> g \<noteq> ''.'' \<and> g \<noteq> ''..'' \<and> slash \<notin> set g)"

definition absPath :: "string list \<Rightarrow> string" where
  "absPath gs = ''/'' @ joinWith ''/'' gs"











text \<open>
  \<open>consumes r u add rest\<close>: before \<open>rest\<close>, the pattern \<open>r\<close> matches exactly \<open>u\<close> and
  adds the captures \<open>add\<close>, whenever what follows the pattern accepts that.
\<close>

definition consumes :: "rx \<Rightarrow> string \<Rightarrow> caps \<Rightarrow> string \<Rightarrow> bool" where
  "consumes r u add rest =
     (\<forall>cs k. k rest (cs @ add) \<noteq> None \<longrightarrow> r (u @ rest) cs k = k rest (cs @ add))"

text \<open>The host of the examples: the project lies in \<^verbatim>\<open>/proj\<close>.\<close>

definition exampleHost :: host where
  "exampleHost = \<lparr>cwd = ''/proj'', script_dirname = ''/proj''\<rparr>"

section \<open>Lemmas on paths\<close>

lemma splitOn_nonempty: "splitOn c s \<noteq> []"
  by (induction s) (auto split: list.splits)

lemma splitOn_noSep: "c \<notin> set s \<Longrightarrow> splitOn c s = [s]"
  by (induction s) auto

lemma splitOn_append: "splitOn c (a @ c # b) = splitOn c a @ splitOn c b"
  by (induction a) (auto split: list.splits simp: splitOn_nonempty)

lemma splitOn_app_noSep: "c \<notin> set a \<Longrightarrow> splitOn c (a @ c # b) = a # splitOn c b"
  by (induction a) auto

lemma joinWith_Cons: "joinWith sep (x # ys) = (if ys = [] then x else x @ sep @ joinWith sep ys)"
  by (cases ys) auto

lemma splitOn_joinWith:
  "gs \<noteq> [] \<Longrightarrow> list_all (\<lambda>g. slash \<notin> set g) gs \<Longrightarrow> splitOn slash (joinWith ''/'' gs) = gs"
proof (induction gs)
  case Nil
  then show ?case by simp
next
  case (Cons g gs)
  show ?case
  proof (cases "gs = []")
    case True
    with Cons.prems show ?thesis by (simp add: splitOn_noSep)
  next
    case False
    with Cons have "splitOn slash (joinWith ''/'' gs) = gs" by simp
    moreover from Cons.prems have "slash \<notin> set g" by simp
    ultimately show ?thesis using False splitOn_app_noSep[of slash g "joinWith ''/'' gs"]
      by (simp add: joinWith_Cons slash_def)
  qed
qed

lemma normSegs_append: "normSegs ab res (xs @ ys) = normSegs ab (normSegs ab res xs) ys"
  by (induction xs arbitrary: res) auto

lemma normSegs_ok: "list_all okSeg gs \<Longrightarrow> normSegs ab res gs = res @ gs"
  by (induction gs arbitrary: res) (auto simp: okSeg_def)

lemma normSegs_ups:
  "list_all okSeg gs \<Longrightarrow> normSegs ab (res @ gs) (replicate (length gs) ''..'') = res"
proof (induction gs rule: rev_induct)
  case Nil
  then show ?case by simp
next
  case (snoc g gs)
  then show ?case by (simp add: okSeg_def butlast_append flip: append_assoc)
qed


lemma splitOn_noSep_all: "list_all (\<lambda>g. c \<notin> set g) (splitOn c s)"
  by (induction s) (auto split: list.splits)

lemma list_all_butlast: "list_all P xs \<Longrightarrow> list_all P (butlast xs)"
  by (induction xs) auto

lemma normSegs_clean:
  "list_all okSeg res \<Longrightarrow> list_all (\<lambda>g. slash \<notin> set g) gs \<Longrightarrow>
   list_all okSeg (normSegs False res gs)"
proof (induction gs arbitrary: res)
  case Nil
  then show ?case by simp
next
  case (Cons g gs)
  from Cons.prems(2) have g: "slash \<notin> set g" and gs: "list_all (\<lambda>g. slash \<notin> set g) gs"
    by simp_all
  have keep: "list_all okSeg (normSegs False res gs)"
    by (rule Cons.IH[OF Cons.prems(1) gs])
  have pop: "list_all okSeg (normSegs False (butlast res) gs)"
    by (rule Cons.IH[OF list_all_butlast[OF Cons.prems(1)] gs])
  show ?case
  proof (cases "g = [] \<or> g = ''.'' \<or> g = ''..''")
    case True
    then show ?thesis using keep pop by auto
  next
    case False
    with g have "okSeg g" by (simp add: okSeg_def)
    with Cons.prems(1) have "list_all okSeg (res @ [g])" by simp
    from Cons.IH[OF this gs] False show ?thesis by simp
  qed
qed

lemma joinWith_ok_Nil: "list_all okSeg gs \<Longrightarrow> (joinWith ''/'' gs = []) = (gs = [])"
  by (cases gs) (auto simp: joinWith_Cons okSeg_def)

lemma okSeg_noSlash: "list_all okSeg gs \<Longrightarrow> list_all (\<lambda>g. slash \<notin> set g) gs"
  by (induction gs) (auto simp: okSeg_def)

lemma splitOn_absPath:
  "list_all okSeg gs \<Longrightarrow> splitOn slash (absPath gs) = (if gs = [] then [[], []] else [] # gs)"
  by (auto simp: absPath_def slash_def splitOn_joinWith[unfolded slash_def] okSeg_noSlash[unfolded slash_def])

lemma normSegs_Nil_Cons: "normSegs ab res ([] # gs) = normSegs ab res gs"
  by simp

lemma resolveSegs_absPath: "list_all okSeg gs \<Longrightarrow> resolveSegs c (absPath gs) = gs"
  by (simp add: resolveSegs_def splitOn_absPath normSegs_ok) (simp add: absPath_def isAbsolute_def slash_def)

lemma relSegs_same: "relSegs xs xs = []"
  by (induction xs) auto

lemma normSegs_rel_gen:
  "list_all okSeg ds \<Longrightarrow> list_all okSeg ts \<Longrightarrow>
   normSegs False (pre @ ds) (relSegs ds ts) = pre @ ts"
proof (induction ds ts arbitrary: pre rule: relSegs.induct)
  case (1 ys)
  then show ?case by (simp add: normSegs_ok)
next
  case (2 x xs)
  then have ok: "list_all okSeg (x # xs)" by simp
  show ?case using normSegs_ups[OF ok, of False pre] by simp
next
  case (3 x xs y ys)
  show ?case
  proof (cases "x = y")
    case True
    from 3 have "list_all okSeg xs" "list_all okSeg ys" by simp_all
    from 3(1)[OF True this, of "pre @ [x]"] True show ?thesis by simp
  next
    case False
    from 3 have ok: "list_all okSeg (x # xs)" "list_all okSeg (y # ys)" by simp_all
    have "normSegs False (pre @ x # xs) (replicate (length (x # xs)) ''..'' @ (y # ys))
        = normSegs False (normSegs False (pre @ x # xs) (replicate (length (x # xs)) ''..'')) (y # ys)"
      by (simp only: normSegs_append)
    also have "\<dots> = pre @ y # ys"
      by (simp only: normSegs_ups[OF ok(1)] normSegs_ok[OF ok(2)])
    finally show ?thesis using False by simp
  qed
qed

lemma normSegs_rel:
  "list_all okSeg ds \<Longrightarrow> list_all okSeg ts \<Longrightarrow> normSegs False ds (relSegs ds ts) = ts"
  using normSegs_rel_gen[of ds ts "[]"] by simp

lemma relSegs_Nil_iff: "(relSegs ds ts = []) = (ds = ts)"
  by (induction ds ts rule: relSegs.induct) auto

lemma relSegs_set: "set (relSegs ds ts) \<subseteq> insert ''..'' (set ts)"
  by (induction ds ts rule: relSegs.induct) auto


lemma joinWith_snoc:
  "joinWith sep (gs @ [g]) = (if gs = [] then g else joinWith sep gs @ sep @ g)"
  by (induction gs) (auto simp: joinWith_Cons)

lemma joinWith_append:
  "xs \<noteq> [] \<Longrightarrow> ys \<noteq> [] \<Longrightarrow> joinWith sep (xs @ ys) = joinWith sep xs @ sep @ joinWith sep ys"
  by (induction xs) (auto simp: joinWith_Cons)

lemma okSeg_last: "okSeg g \<Longrightarrow> last g \<noteq> slash"
  by (metis last_in_set okSeg_def)

lemma okSeg_hd: "okSeg g \<Longrightarrow> hd g \<noteq> slash"
  by (cases g) (auto simp: okSeg_def)

lemma joinWith_last:
  "gs \<noteq> [] \<Longrightarrow> list_all okSeg gs \<Longrightarrow> last (joinWith ''/'' gs) \<noteq> slash"
proof (induction gs rule: rev_induct)
  case Nil
  then show ?case by simp
next
  case (snoc g gs)
  then have "okSeg g" by simp
  then have "g \<noteq> []" "last g \<noteq> slash" using okSeg_last by (auto simp: okSeg_def)
  then show ?case by (simp add: joinWith_snoc)
qed

lemma dropWhile_ok_rev:
  assumes "okSeg g"
  shows "dropWhile (\<lambda>c. c \<noteq> slash) (dropWhile (\<lambda>c. c = slash) (rev g @ r)) =
         dropWhile (\<lambda>c. c \<noteq> slash) r"
proof -
  from assms have ne: "rev g \<noteq> []" and hd: "hd (rev g) \<noteq> slash" and no: "slash \<notin> set (rev g)"
    using okSeg_last[of g] by (auto simp: okSeg_def hd_rev)
  from ne hd have "dropWhile (\<lambda>c. c = slash) (rev g @ r) = rev g @ r"
    by (cases "rev g") auto
  moreover from no have "dropWhile (\<lambda>c. c \<noteq> slash) (rev g @ r) = dropWhile (\<lambda>c. c \<noteq> slash) r"
    by (simp add: dropWhile_append)
  ultimately show ?thesis by simp
qed

lemma slash_str: "''/'' = [slash]"
  by (simp add: slash_def)

lemma absPath_snoc:
  "absPath (gs @ [g]) = slash # (if gs = [] then g else joinWith ''/'' gs @ slash # g)"
  by (simp add: absPath_def joinWith_snoc slash_def)

lemma dd_single:
  "okSeg g \<Longrightarrow> dropWhile (\<lambda>c. c \<noteq> slash) (dropWhile (\<lambda>c. c = slash) (rev g)) = []"
  using dropWhile_ok_rev[of g "[]"] by (simp only: append_Nil2 dropWhile.simps)

lemma dd_multi:
  "okSeg g \<Longrightarrow>
   dropWhile (\<lambda>c. c \<noteq> slash) (dropWhile (\<lambda>c. c = slash) (rev g @ slash # r)) = slash # r"
  using dropWhile_ok_rev[of g "slash # r"] by (simp only: dropWhile.simps simp_thms if_False)

lemma path_dirname_one: "okSeg g \<Longrightarrow> path_dirname (slash # g) = [slash]"
  by (simp add: path_dirname_def dd_single slash_def[symmetric])

lemma path_dirname_more:
  "okSeg g \<Longrightarrow> b \<noteq> [] \<Longrightarrow> path_dirname (slash # b @ slash # g) = slash # b"
  by (simp add: path_dirname_def dd_multi slash_def[symmetric])

lemma path_dirname_absPath:
  assumes "list_all okSeg (gs @ [g])"
  shows "path_dirname (absPath (gs @ [g])) = absPath gs"
proof -
  from assms have g: "okSeg g" and gs: "list_all okSeg gs" by simp_all
  show ?thesis
  proof (cases "gs = []")
    case True
    then have "absPath (gs @ [g]) = slash # g" "absPath gs = [slash]"
      by (simp_all add: absPath_def slash_def)
    then show ?thesis using path_dirname_one[OF g] by simp
  next
    case False
    with gs have ne: "joinWith ''/'' gs \<noteq> []" by (simp add: joinWith_ok_Nil)
    from False have "absPath (gs @ [g]) = slash # joinWith ''/'' gs @ slash # g"
      "absPath gs = slash # joinWith ''/'' gs"
      by (simp_all add: absPath_def slash_def joinWith_snoc)
    then show ?thesis using path_dirname_more[OF g ne] by simp
  qed
qed

lemma tw_seg:
  "okSeg g \<Longrightarrow>
   takeWhile (\<lambda>c. c \<noteq> slash) (dropWhile (\<lambda>c. c = slash) (rev g @ slash # r)) = rev g"
proof -
  assume g: "okSeg g"
  then have ne: "rev g \<noteq> []" and hd: "hd (rev g) \<noteq> slash" and no: "\<forall>x\<in>set (rev g). x \<noteq> slash"
    using okSeg_last[of g] by (auto simp: okSeg_def hd_rev)
  have "dropWhile (\<lambda>c. c = slash) (rev g @ slash # r) = rev g @ slash # r"
    using ne hd by (cases "rev g") auto
  moreover have "takeWhile (\<lambda>c. c \<noteq> slash) (rev g @ slash # r) = rev g"
    using no by (simp add: takeWhile_tail)
  ultimately show ?thesis by (simp only:)
qed

lemma path_basename_absPath:
  assumes "list_all okSeg (gs @ [g])"
  shows "path_basename (absPath (gs @ [g])) = g"
proof -
  from assms have g: "okSeg g" by simp
  have "rev (absPath (gs @ [g])) = rev g @ slash # (if gs = [] then [] else rev (joinWith ''/'' gs) @ [slash])"
    by (simp add: absPath_def joinWith_snoc slash_def)
  then have "path_basename (absPath (gs @ [g])) = rev (rev g)"
    unfolding path_basename_def by (simp only: tw_seg[OF g])
  then show ?thesis by simp
qed


lemma okSeg_plain: "list_all okSeg gs \<Longrightarrow> list_all (\<lambda>g. g \<noteq> [] \<and> slash \<notin> set g) gs"
  by (induction gs) (simp_all add: okSeg_def)

lemma ups_plain: "list_all (\<lambda>g. g \<noteq> [] \<and> slash \<notin> set g) (replicate n ''..'')"
  by (induction n) (simp_all add: slash_def)

lemma relSegs_plain:
  "list_all okSeg ds \<Longrightarrow> list_all okSeg ts \<Longrightarrow>
   list_all (\<lambda>g. g \<noteq> [] \<and> slash \<notin> set g) (relSegs ds ts)"
proof (induction ds ts rule: relSegs.induct)
  case (1 ys)
  then show ?case by (simp add: okSeg_plain)
next
  case (2 x xs)
  show ?case using ups_plain[of "length (x # xs)"] by (simp only: relSegs.simps)
next
  case (3 x xs y ys)
  show ?case
  proof (cases "x = y")
    case True
    with 3 show ?thesis by simp
  next
    case False
    have "list_all (\<lambda>g. g \<noteq> [] \<and> slash \<notin> set g) (replicate (length (x # xs)) ''..'' @ (y # ys))"
      using ups_plain[of "length (x # xs)"] okSeg_plain[OF 3(3)]
      by (simp only: list_all_append simp_thms)
    with False show ?thesis by (simp only: relSegs.simps if_False)
  qed
qed

lemma joinWith_plain_Nil:
  "list_all (\<lambda>g. g \<noteq> [] \<and> slash \<notin> set g) gs \<Longrightarrow> (joinWith ''/'' gs = []) = (gs = [])"
  by (cases gs) (auto simp: joinWith_Cons)

lemma joinWith_plain_last:
  "gs \<noteq> [] \<Longrightarrow> list_all (\<lambda>g. g \<noteq> [] \<and> slash \<notin> set g) gs \<Longrightarrow>
   last (joinWith ''/'' gs) \<noteq> slash"
proof (induction gs rule: rev_induct)
  case Nil
  then show ?case by simp
next
  case (snoc g gs)
  then have a: "g \<noteq> []" and b: "slash \<notin> set g" by simp_all
  have "last g \<noteq> slash" using a b last_in_set by metis
  with a show ?case by (simp add: joinWith_snoc)
qed

lemma splitOn_plain:
  "gs \<noteq> [] \<Longrightarrow> list_all (\<lambda>g. g \<noteq> [] \<and> slash \<notin> set g) gs \<Longrightarrow>
   splitOn slash (joinWith ''/'' gs) = gs"
  by (rule splitOn_joinWith) (auto simp: list_all_iff)

lemma splitOn_slash_Cons: "splitOn slash (slash # s) = [] # splitOn slash s"
  by simp

lemma path_normalize_abs:
  "path_normalize (slash # s) =
     (let ts = normSegs False [] (splitOn slash s)
      in if ts = [] then [slash]
         else absPath ts @ (if last (slash # s) = slash then [slash] else []))"
proof -
  let ?ts = "normSegs False [] (splitOn slash s)"
  have ok: "list_all okSeg ?ts"
    by (rule normSegs_clean) (simp_all add: splitOn_noSep_all)
  have nil: "(joinWith ''/'' ?ts = []) = (?ts = [])"
    by (rule joinWith_ok_Nil[OF ok])
  have sp: "normSegs False [] (splitOn slash (slash # s)) = ?ts"
    by simp
  show ?thesis
    unfolding path_normalize_def Let_def sp
    by (simp add: nil nil[unfolded slash_str] absPath_def slash_def[symmetric] slash_str)
qed

lemma path_join_abs:
  "b \<noteq> [] \<Longrightarrow> path_join (slash # a) b = path_normalize (slash # a @ slash # b)"
  by (simp add: path_join_def slash_str)

lemma path_join_abs_empty: "path_join (slash # a) [] = path_normalize (slash # a)"
  by (simp add: path_join_def)

lemma absPath_inj:
  assumes "list_all okSeg xs" "list_all okSeg ys" "absPath xs = absPath ys"
  shows "xs = ys"
proof -
  have "xs = resolveSegs [] (absPath xs)" using assms(1) by (simp add: resolveSegs_absPath)
  also have "\<dots> = resolveSegs [] (absPath ys)" using assms(3) by simp
  also have "\<dots> = ys" using assms(2) by (simp add: resolveSegs_absPath)
  finally show ?thesis .
qed

lemma path_relative_abs:
  assumes "list_all okSeg xs" "list_all okSeg ys"
  shows "path_relative c (absPath xs) (absPath ys) = joinWith ''/'' (relSegs xs ys)"
proof (cases "absPath xs = absPath ys")
  case True
  then have "xs = ys" using absPath_inj[OF assms] by simp
  then show ?thesis using True by (simp add: path_relative_def relSegs_same)
next
  case False
  then show ?thesis using assms by (simp add: path_relative_def resolveSegs_absPath)
qed


lemma absPath_Nil: "absPath [] = [slash]"
  by (simp add: absPath_def slash_def)

lemma absPath_slash: "absPath gs = slash # joinWith ''/'' gs"
  by (simp add: absPath_def slash_def)

lemma normSegs_split_join:
  "list_all okSeg ds \<Longrightarrow> normSegs False [] (splitOn slash (joinWith ''/'' ds)) = ds"
proof (cases "ds = []")
  case True
  then show ?thesis by simp
next
  case False
  assume ok: "list_all okSeg ds"
  then have "splitOn slash (joinWith ''/'' ds) = ds"
    using False by (simp add: splitOn_joinWith okSeg_noSlash)
  then show ?thesis using ok by (simp add: normSegs_ok)
qed

lemma norm_join_segs:
  assumes ds: "list_all okSeg ds"
    and rs: "list_all (\<lambda>g. g \<noteq> [] \<and> slash \<notin> set g) rs" "rs \<noteq> []"
  shows "path_normalize (slash # joinWith ''/'' ds @ slash # joinWith ''/'' rs) =
         (let ts = normSegs False ds rs in if ts = [] then [slash] else absPath ts)"
proof -
  let ?s = "joinWith ''/'' ds @ slash # joinWith ''/'' rs"
  have "splitOn slash ?s = splitOn slash (joinWith ''/'' ds) @ splitOn slash (joinWith ''/'' rs)"
    by (rule splitOn_append)
  also have "splitOn slash (joinWith ''/'' rs) = rs"
    by (rule splitOn_plain[OF rs(2) rs(1)])
  finally have "normSegs False [] (splitOn slash ?s) = normSegs False ds rs"
    by (simp only: normSegs_append normSegs_split_join[OF ds])
  moreover have "joinWith ''/'' rs \<noteq> []"
    using rs by (simp add: joinWith_plain_Nil)
  then have "last (slash # ?s) \<noteq> slash"
    using joinWith_plain_last[OF rs(2) rs(1)] by simp
  ultimately show ?thesis
    by (simp only: path_normalize_abs Let_def if_False append_Nil2)
qed

lemma join_back:
  assumes ds: "list_all okSeg ds" and ts: "list_all okSeg ts" and ne: "relSegs ds ts \<noteq> []"
  shows "path_join (absPath ds) (joinWith ''/'' (relSegs ds ts)) = absPath ts"
proof -
  have pl: "list_all (\<lambda>g. g \<noteq> [] \<and> slash \<notin> set g) (relSegs ds ts)"
    by (rule relSegs_plain[OF ds ts])
  have b: "joinWith ''/'' (relSegs ds ts) \<noteq> []"
    using pl ne by (simp add: joinWith_plain_Nil)
  have "path_join (absPath ds) (joinWith ''/'' (relSegs ds ts)) =
        path_normalize (slash # joinWith ''/'' ds @ slash # joinWith ''/'' (relSegs ds ts))"
    unfolding absPath_slash by (rule path_join_abs[OF b])
  also have "\<dots> = (let ts' = normSegs False ds (relSegs ds ts) in if ts' = [] then [slash] else absPath ts')"
    by (rule norm_join_segs[OF ds pl ne])
  also have "\<dots> = absPath ts"
    by (simp add: normSegs_rel[OF ds ts] absPath_Nil)
  finally show ?thesis .
qed

lemma join_back_dot:
  assumes ds: "list_all okSeg ds" and ts: "list_all okSeg ts" and ne: "relSegs ds ts \<noteq> []"
  shows "path_join (absPath ds) (''./'' @ joinWith ''/'' (relSegs ds ts)) = absPath ts"
proof -
  let ?rs = "''.'' # relSegs ds ts"
  have pl: "list_all (\<lambda>g. g \<noteq> [] \<and> slash \<notin> set g) ?rs"
    using relSegs_plain[OF ds ts] by (simp add: slash_def)
  have j: "''./'' @ joinWith ''/'' (relSegs ds ts) = joinWith ''/'' ?rs"
    using ne by (simp add: joinWith_Cons)
  have "path_join (absPath ds) (joinWith ''/'' ?rs) =
        path_normalize (slash # joinWith ''/'' ds @ slash # joinWith ''/'' ?rs)"
    unfolding absPath_slash by (rule path_join_abs) (simp add: joinWith_Cons)
  also have "\<dots> = (let ts' = normSegs False ds ?rs in if ts' = [] then [slash] else absPath ts')"
    by (rule norm_join_segs[OF ds pl]) simp
  also have "\<dots> = absPath ts"
    by (simp add: normSegs_rel[OF ds ts] absPath_Nil)
  finally show ?thesis by (simp only: j)
qed

lemma path_normalize_absPath: "list_all okSeg ds \<Longrightarrow> path_normalize (absPath ds) = absPath ds"
proof -
  assume ds: "list_all okSeg ds"
  have "ds \<noteq> [] \<Longrightarrow> last (slash # joinWith ''/'' ds) \<noteq> slash"
    using joinWith_plain_last[OF _ okSeg_plain[OF ds]] joinWith_ok_Nil[OF ds] by simp
  then show ?thesis
    unfolding absPath_slash path_normalize_abs
    by (cases "ds = []") (simp_all add: normSegs_split_join[OF ds] absPath_slash)
qed

lemma join_back_same: "list_all okSeg ds \<Longrightarrow> path_join (absPath ds) [] = absPath ds"
  using path_normalize_absPath[of ds] by (simp add: path_join_def absPath_slash)

lemma splitOn_dot_slash: "splitOn slash ''./'' = [''.'', []]"
  by (simp add: slash_def)

lemma join_dot_slash:
  assumes ds: "list_all okSeg ds" and ne: "ds \<noteq> []"
  shows "path_join (absPath ds) ''./'' = absPath ds @ ''/''"
proof -
  let ?s = "joinWith ''/'' ds @ slash # ''./''"
  have "splitOn slash ?s = splitOn slash (joinWith ''/'' ds) @ [''.'', []]"
    by (simp only: splitOn_append splitOn_dot_slash)
  then have sp: "normSegs False [] (splitOn slash ?s) = ds"
    by (simp add: normSegs_append normSegs_split_join[OF ds])
  have la: "last (slash # ?s) = slash"
    by (simp add: slash_def)
  have "path_join (absPath ds) ''./'' = path_normalize (slash # ?s)"
    unfolding absPath_slash by (rule path_join_abs) simp
  also have "\<dots> = absPath ds @ [slash]"
    unfolding path_normalize_abs Let_def sp la using ne by simp
  finally show ?thesis by (simp add: slash_def)
qed

section \<open>Lemmas on the patterns\<close>

lemma lit_app: "lit l (l @ s) cs k = k s cs"
  by (simp add: lit_def)

lemma lit_Some: "lit l s cs k = Some r \<Longrightarrow> \<exists>s'. s = l @ s' \<and> k s' cs = Some r"
proof -
  assume a: "lit l s cs k = Some r"
  then have t: "take (length l) s = l" and k: "k (drop (length l) s) cs = Some r"
    by (auto simp: lit_def split: if_splits)
  have "s = l @ drop (length l) s" using t append_take_drop_id[of "length l" s] by simp
  with k have "s = l @ drop (length l) s \<and> k (drop (length l) s) cs = Some r" by simp
  then show ?thesis by (intro exI)
qed

lemma one_Some: "one P s cs k = Some r \<Longrightarrow> \<exists>c s'. s = c # s' \<and> P c \<and> k s' cs = Some r"
  by (cases s) (auto simp: one_def split: if_splits)

lemma star_Some:
  "star P s cs k = Some r \<Longrightarrow> \<exists>u s'. s = u @ s' \<and> list_all P u \<and> k s' cs = Some r"
proof (induction s)
  case Nil
  then have "[] = [] @ [] \<and> list_all P [] \<and> k [] cs = Some r" by simp
  then show ?case by (intro exI)
next
  case (Cons c s)
  show ?case
  proof (cases "P c \<and> star P s cs k \<noteq> None")
    case True
    then obtain r' where r': "star P s cs k = Some r'" by auto
    with True Cons.prems have "r' = r" by simp
    with r' Cons.IH obtain u s' where "s = u @ s'" "list_all P u" "k s' cs = Some r" by auto
    with True have "c # s = (c # u) @ s' \<and> list_all P (c # u) \<and> k s' cs = Some r" by simp
    then show ?thesis by (intro exI)
  next
    case False
    with Cons.prems have "k (c # s) cs = Some r" by (auto split: if_splits option.splits)
    then have "c # s = [] @ (c # s) \<and> list_all P [] \<and> k (c # s) cs = Some r" by simp
    then show ?thesis by (intro exI)
  qed
qed

lemma plus_Some:
  "plus P s cs k = Some r \<Longrightarrow>
   \<exists>u s'. s = u @ s' \<and> u \<noteq> [] \<and> list_all P u \<and> k s' cs = Some r"
proof (cases s)
  case Nil
  assume "plus P s cs k = Some r"
  with Nil show ?thesis by (simp add: plus_def)
next
  case (Cons c t)
  assume "plus P s cs k = Some r"
  with Cons have c: "P c" and st: "star P t cs k = Some r"
    by (auto simp: plus_def split: if_splits)
  from star_Some[OF st] obtain u s' where "t = u @ s'" "list_all P u" "k s' cs = Some r" by auto
  with c Cons have "s = (c # u) @ s' \<and> c # u \<noteq> [] \<and> list_all P (c # u) \<and> k s' cs = Some r" by simp
  then show ?thesis by (intro exI)
qed

lemma star_greedy:
  "list_all P u \<Longrightarrow> s = [] \<or> \<not> P (hd s) \<Longrightarrow> k s cs = Some r \<Longrightarrow>
   star P (u @ s) cs k = Some r"
proof (induction u)
  case Nil
  then show ?case by (cases s) auto
next
  case (Cons x u)
  then show ?case by simp
qed

lemma plus_greedy:
  "u \<noteq> [] \<Longrightarrow> list_all P u \<Longrightarrow> s = [] \<or> \<not> P (hd s) \<Longrightarrow> k s cs = Some r \<Longrightarrow>
   plus P (u @ s) cs k = Some r"
  by (cases u) (simp_all add: plus_def star_greedy)


lemmas rx_defs = seqs_def seq_def eps_def rx_exec_def cap_def

lemma jsRegex_shape:
  "rx_exec jsRegex s = Some (rest, cs) \<Longrightarrow>
   \<exists>ws q p q'. s = ''from'' @ ws @ q # ''@/'' @ p @ q' # rest \<and> ws \<noteq> [] \<and>
     list_all isSpace ws \<and> isQuote q \<and> p \<noteq> [] \<and> list_all notQuote p \<and> isQuote q' \<and>
     cs = [p]"
  apply (simp add: jsRegex_def rx_defs)
  apply (drule lit_Some, elim exE conjE)
  apply (drule plus_Some, elim exE conjE)
  apply (drule one_Some, elim exE conjE)
  apply (drule lit_Some, elim exE conjE)
  apply (drule plus_Some, elim exE conjE)
  apply (drule one_Some, elim exE conjE)
  apply clarsimp
  done

lemma consumes_lit: "consumes (lit l) l [] rest"
  by (simp add: consumes_def lit_def)

lemma consumes_one: "P c \<Longrightarrow> consumes (one P) [c] [] rest"
  by (simp add: consumes_def one_def)

lemma consumes_plus:
  "u \<noteq> [] \<Longrightarrow> list_all P u \<Longrightarrow> rest = [] \<or> \<not> P (hd rest) \<Longrightarrow> consumes (plus P) u [] rest"
  unfolding consumes_def
proof (intro allI impI)
  fix cs :: caps and k :: rx_cont
  assume a: "u \<noteq> []" "list_all P u" "rest = [] \<or> \<not> P (hd rest)" "k rest (cs @ []) \<noteq> None"
  then obtain r where r: "k rest cs = Some r" by auto
  from plus_greedy[where k=k and s=rest and cs=cs and r=r, OF a(1) a(2) a(3) r] r show "plus P (u @ rest) cs k = k rest (cs @ [])"
    by simp
qed

lemma consumes_star:
  "list_all P u \<Longrightarrow> rest = [] \<or> \<not> P (hd rest) \<Longrightarrow> consumes (star P) u [] rest"
  unfolding consumes_def
proof (intro allI impI)
  fix cs :: caps and k :: rx_cont
  assume a: "list_all P u" "rest = [] \<or> \<not> P (hd rest)" "k rest (cs @ []) \<noteq> None"
  then obtain r where r: "k rest cs = Some r" by auto
  from star_greedy[where k=k and s=rest and cs=cs and r=r, OF a(1) a(2) r] r show "star P (u @ rest) cs k = k rest (cs @ [])"
    by simp
qed

lemma consumes_seq:
  "consumes a ua adda (ub @ rest) \<Longrightarrow> consumes b ub addb rest \<Longrightarrow>
   consumes (seq a b) (ua @ ub) (adda @ addb) rest"
  by (simp add: consumes_def seq_def)

lemma consumes_eps: "consumes eps [] [] rest"
  by (simp add: consumes_def eps_def)

lemma consumes_cap: "consumes a u add rest \<Longrightarrow> consumes (cap a) u (add @ [u]) rest"
  by (simp add: consumes_def cap_def)

lemma consumes_alt1: "consumes a u add rest \<Longrightarrow> consumes (alt a b) u add rest"
  by (simp add: consumes_def alt_def split: option.splits)

lemma consumes_alt2:
  "(\<And>cs k. a (u @ rest) cs k = None) \<Longrightarrow> consumes b u add rest \<Longrightarrow>
   consumes (alt a b) u add rest"
  by (simp add: consumes_def alt_def)

lemma consumes_exec: "consumes r u add rest \<Longrightarrow> rx_exec r (u @ rest) = Some (rest, add)"
  by (simp add: consumes_def rx_exec_def)

lemma consumes_match: "consumes r u add rest \<Longrightarrow> rx_match r (u @ rest) = Some (length u, add)"
  by (simp add: rx_match_def consumes_exec)

lemma isQuote_notSpace: "isQuote q \<Longrightarrow> \<not> isSpace q"
  by (auto simp: isQuote_def isSpace_def sq_def dq_def)

lemma isQuote_notNotQuote: "isQuote q \<Longrightarrow> \<not> notQuote q"
  by (simp add: notQuote_def)

lemma jsRegex_consumes:
  assumes "ws \<noteq> []" "list_all isSpace ws" "isQuote q" "p \<noteq> []" "list_all notQuote p" "isQuote q'"
  shows "consumes jsRegex (''from'' @ ws @ [q] @ ''@/'' @ p @ [q'] @ []) ([] @ [] @ [] @ [] @ ([] @ [p]) @ [] @ []) rest"
  unfolding jsRegex_def seqs_def foldr.simps o_def id_apply
  apply (rule consumes_seq, rule consumes_lit)
  apply (rule consumes_seq, rule consumes_plus)
  using assms apply (simp_all add: isQuote_notSpace)[3]
  apply (rule consumes_seq, rule consumes_one)
  using assms apply simp
  apply (rule consumes_seq, rule consumes_lit)
  apply (rule consumes_seq, rule consumes_cap, rule consumes_plus)
  using assms apply (simp_all add: isQuote_notNotQuote)[3]
  apply (rule consumes_seq, rule consumes_one)
  using assms apply simp
  apply (rule consumes_eps)
  done


lemma isSpace_a: "\<not> isSpace (CHR ''a'')"
  by (simp add: isSpace_def)

lemma notSemi_semi: "\<not> notSemi (CHR '';'')"
  by (simp add: notSemi_def)

lemma scssRegex_consumes:
  assumes "w1 \<noteq> []" "list_all isSpace w1" "isQuote q" "p \<noteq> []" "list_all notQuote p" "isQuote q'"
    "w2 \<noteq> []" "list_all isSpace w2" "w3 \<noteq> []" "list_all isSpace w3"
    "a \<noteq> []" "\<not> isSpace (hd a)" "list_all notSemi a"
  shows "consumes scssRegex
           (''@use'' @ w1 @ [q] @ ''@/assets/'' @ p @ [q'] @ w2 @ ''as'' @ w3 @ a @ '';'' @ [])
           ([] @ [] @ [] @ [] @ ([] @ [p]) @ [] @ [] @ [] @ [] @ ([] @ [a]) @ [] @ []) rest"
  unfolding scssRegex_def seqs_def foldr.simps o_def id_apply
  apply (rule consumes_seq, rule consumes_lit)
  apply (rule consumes_seq, rule consumes_plus)
  using assms apply (simp_all add: isQuote_notSpace)[3]
  apply (rule consumes_seq, rule consumes_one)
  using assms apply simp
  apply (rule consumes_seq, rule consumes_lit)
  apply (rule consumes_seq, rule consumes_cap, rule consumes_plus)
  using assms apply (simp_all add: isQuote_notNotQuote)[3]
  apply (rule consumes_seq, rule consumes_one)
  using assms apply simp
  apply (rule consumes_seq, rule consumes_plus)
  using assms apply (simp_all add: isSpace_a)[3]
  apply (rule consumes_seq, rule consumes_lit)
  apply (rule consumes_seq, rule consumes_plus)
  using assms apply (simp_all)[3]
  apply (rule consumes_seq, rule consumes_cap, rule consumes_plus)
  using assms apply (simp_all add: notSemi_semi)[3]
  apply (rule consumes_seq, rule consumes_lit)
  apply (rule consumes_eps)
  done

lemma isLower_notSpace: "isLower c \<Longrightarrow> \<not> isSpace c"
  by (auto simp: isLower_def isSpace_def)

lemma scssAliasPattern_consumes:
  assumes "w1 \<noteq> []" "list_all isSpace w1" "isQuote q" "p \<noteq> []" "list_all notQuote p" "isQuote q'"
    "w2 \<noteq> []" "list_all isSpace w2" "w3 \<noteq> []" "list_all isSpace w3" "isLower c"
  shows "consumes scssAliasPattern
           (''@use'' @ w1 @ [q] @ ''@/assets/styles/'' @ p @ [q'] @ w2 @ ''as'' @ w3 @ [c] @ [])
           ([] @ [] @ [] @ [] @ ([] @ [p]) @ [] @ [] @ [] @ [] @ ([] @ [[c]]) @ []) rest"
  unfolding scssAliasPattern_def seqs_def foldr.simps o_def id_apply
  apply (rule consumes_seq, rule consumes_lit)
  apply (rule consumes_seq, rule consumes_plus)
  using assms apply (simp_all add: isQuote_notSpace)[3]
  apply (rule consumes_seq, rule consumes_one)
  using assms apply simp
  apply (rule consumes_seq, rule consumes_lit)
  apply (rule consumes_seq, rule consumes_cap, rule consumes_plus)
  using assms apply (simp_all add: isQuote_notNotQuote)[3]
  apply (rule consumes_seq, rule consumes_one)
  using assms apply simp
  apply (rule consumes_seq, rule consumes_plus)
  using assms apply (simp_all add: isSpace_a)[3]
  apply (rule consumes_seq, rule consumes_lit)
  apply (rule consumes_seq, rule consumes_plus)
  using assms apply (simp_all add: isLower_notSpace)[3]
  apply (rule consumes_seq, rule consumes_cap, rule consumes_one)
  using assms apply simp
  apply (rule consumes_eps)
  done

lemma replaceAll_hit:
  assumes "rx_match r (u @ rest) = Some (length u, cs)" "u \<noteq> []"
  shows "replaceAll r f (u @ rest) = f u cs @ replaceAll r f rest"
proof -
  from assms(2) obtain c t where u: "u = c # t" by (cases u) auto
  show ?thesis using assms(1) unfolding u by simp
qed

lemma replaceAllSt_hit:
  assumes "rx_match r (u @ rest) = Some (length u, cs)" "u \<noteq> []"
  shows "replaceAllSt r f (u @ rest) st =
     (let (new, st1) = f u cs st; (out, st2) = replaceAllSt r f rest st1 in (new @ out, st2))"
proof -
  from assms(2) obtain c t where u: "u = c # t" by (cases u) auto
  show ?thesis using assms(1) unfolding u by simp
qed

lemma rx_match_Nil:
  "rx_match jsRegex [] = None" "rx_match scssRegex [] = None"
  "rx_match jsAliasPattern [] = None" "rx_match scssAliasPattern [] = None"
  by code_simp+

section \<open>Lemmas on the scan\<close>

lemma replaceAllSt_fst:
  "fst (replaceAllSt r (\<lambda>m cs st. (g m cs, upd m cs st)) t st) = replaceAll r g t"
proof (induction "length t" arbitrary: t st rule: less_induct)
  case less
  let ?F = "\<lambda>m cs st. (g m cs, upd m cs st)"
  show ?case
  proof (cases t)
    case Nil
    then show ?thesis by (simp split: option.splits)
  next
    case (Cons c u)
    have a: "fst (replaceAllSt r ?F u st') = replaceAll r g u" for st'
      using less[of u st'] Cons by simp
    have b: "fst (replaceAllSt r ?F (drop k u) st') = replaceAll r g (drop k u)" for st' k
      using less[of "drop k u" st'] Cons by simp
    show ?thesis
    proof (cases "rx_match r (c # u)")
      case None
      then show ?thesis using a[of st] by (simp add: Cons case_prod_beta)
    next
      case (Some p)
      obtain n cs where p: "p = (n, cs)" by (cases p)
      show ?thesis
      proof (cases "n = 0")
        case True
        then show ?thesis using a[of "upd [] cs st"] Some p
          by (simp add: Cons case_prod_beta)
      next
        case False
        then show ?thesis using b[of "n - 1" "upd (take n (c # u)) cs st"] Some p
          by (simp add: Cons case_prod_beta)
      qed
    qed
  qed
qed








lemma noMatch_js_match: "matchAll r t = [] \<Longrightarrow> js_match r t = None"
  by (simp add: js_match_def)

text \<open>The originals of the recorded modifications are the matches, in order.\<close>

lemma replaceAllSt_snd:
  "map fst (snd (replaceAllSt r (\<lambda>m cs st. (g cs, st @ [(m, g cs)])) t st)) =
   map fst st @ matchAll r t"
proof (induction "length t" arbitrary: t st rule: less_induct)
  case less
  let ?F = "\<lambda>m cs st. (g cs, st @ [(m, g cs)])"
  show ?case
  proof (cases t)
    case Nil
    then show ?thesis by (simp split: option.splits)
  next
    case (Cons c u)
    have a: "map fst (snd (replaceAllSt r ?F u st')) = map fst st' @ matchAll r u" for st'
      using less[of u st'] Cons by simp
    have b: "map fst (snd (replaceAllSt r ?F (drop k u) st')) = map fst st' @ matchAll r (drop k u)" for st' k
      using less[of "drop k u" st'] Cons by simp
    show ?thesis
    proof (cases "rx_match r (c # u)")
      case None
      then show ?thesis using a[of st] by (simp add: Cons case_prod_beta)
    next
      case (Some p)
      obtain n cs where p: "p = (n, cs)" by (cases p)
      show ?thesis
      proof (cases "n = 0")
        case True
        then show ?thesis using a[of "st @ [([], g cs)]"] Some p
          by (simp add: Cons case_prod_beta)
      next
        case False
        then show ?thesis using b[of "n - 1" "st @ [(take n (c # u), g cs)]"] Some p
          by (simp add: Cons case_prod_beta)
      qed
    qed
  qed
qed

section \<open>The dry run and the migration\<close>

lemma dry_scss_content:
  "fst (dry_updateScssImports h t F) = fst (updateScssImports h t F)"
  unfolding dry_updateScssImports_def updateScssImports_def Let_def
  by (simp add: replaceAllSt_fst)

lemma dry_js_content:
  "fst (dry_updateJsImports h t F) = fst (updateJsImports h t F)"
  unfolding dry_updateJsImports_def updateJsImports_def Let_def
  by (simp add: replaceAllSt_fst)

text \<open>
  C9. For every text and every file path, the text the dry run (testMigration of
  test-migration-node.mjs) computes is the final content the migration
  (migrateAliasToRelative of migrate-paths-node.mjs) computes for the same input, which
  is the text it writes when it writes the file.
\<close>

theorem dry_run_equals_real_run:
  "dry_testMigration h F t = fst (migrateFile h F t)"
  unfolding dry_testMigration_def migrateFile_def Let_def
  by (simp add: case_prod_beta dry_scss_content dry_js_content)

section \<open>The scenario of the spec\<close>

lemma relSegs_prefix: "relSegs (ds @ a) (ds @ b) = relSegs a b"
  by (induction ds) simp_all

lemma path_join_segs:
  assumes ds: "list_all okSeg ds" and bs: "list_all okSeg bs" "bs \<noteq> []"
  shows "path_join (absPath ds) (joinWith ''/'' bs) = absPath (ds @ bs)"
proof -
  have b: "joinWith ''/'' bs \<noteq> []" using bs by (simp add: joinWith_ok_Nil)
  have "path_join (absPath ds) (joinWith ''/'' bs) =
        path_normalize (slash # joinWith ''/'' ds @ slash # joinWith ''/'' bs)"
    unfolding absPath_slash by (rule path_join_abs[OF b])
  also have "\<dots> = (let ts = normSegs False ds bs in if ts = [] then [slash] else absPath ts)"
    by (rule norm_join_segs[OF ds okSeg_plain[OF bs(1)] bs(2)])
  also have "\<dots> = absPath (ds @ bs)"
    using bs by (simp add: normSegs_ok)
  finally show ?thesis .
qed

lemma ok_names:
  "okSeg ''src''" "okSeg ''pages''" "okSeg ''components''" "okSeg ''Home.vue''" "okSeg ''Foo.vue''"
  "okSeg ''assets''" "okSeg ''styles''"
  by (simp_all add: okSeg_def slash_def)

lemma SRC_DIR_abs:
  "list_all okSeg ds \<Longrightarrow> script_dirname h = absPath ds \<Longrightarrow> SRC_DIR h = absPath (ds @ [''src''])"
  using path_join_segs[of ds "[''src'']"] by (simp add: SRC_DIR_def ok_names)

lemma ASSETS_DIR_abs:
  "list_all okSeg ds \<Longrightarrow> script_dirname h = absPath ds \<Longrightarrow>
   ASSETS_DIR h = absPath (ds @ [''src'', ''assets''])"
  using path_join_segs[of "ds @ [''src'']" "[''assets'']"]
  by (simp add: ASSETS_DIR_def SRC_DIR_abs ok_names)

lemma scenario_scan_mp:
  "replaceAll jsAliasPattern f (''import Foo from '' @ [sq] @ ''@/components/Foo.vue'' @ [sq] @ '';'')
   = f (''import Foo from '' @ [sq] @ ''@/components/Foo.vue'' @ [sq]) [''components/Foo.vue''] @ '';''"
  by code_simp

lemma scenario_scan:
  "replaceAll jsRegex f (''import Foo from '' @ [sq] @ ''@/components/Foo.vue'' @ [sq] @ '';'')
   = ''import Foo '' @ f (''from '' @ [sq] @ ''@/components/Foo.vue'' @ [sq]) [''components/Foo.vue''] @ '';''"
  by code_simp


lemma scenario_paths:
  assumes ds: "list_all okSeg ds" and h: "script_dirname h = absPath ds"
  shows "path_join (SRC_DIR h) ''components/Foo.vue'' = absPath (ds @ [''src'', ''components'', ''Foo.vue''])"
    and "path_dirname (absPath (ds @ [''src'', ''components'', ''Foo.vue''])) = absPath (ds @ [''src'', ''components''])"
    and "path_basename (absPath (ds @ [''src'', ''components'', ''Foo.vue''])) = ''Foo.vue''"
    and "path_dirname (absPath (ds @ [''src'', ''pages'', ''Home.vue''])) = absPath (ds @ [''src'', ''pages''])"
    and "path_relative c (absPath (ds @ [''src'', ''pages''])) (absPath (ds @ [''src'', ''components''])) = ''../components''"
    and "path_relative c (absPath (ds @ [''src'', ''pages''])) (absPath (ds @ [''src'', ''components'', ''Foo.vue''])) = ''../components/Foo.vue''"
proof -
  show "path_join (SRC_DIR h) ''components/Foo.vue'' = absPath (ds @ [''src'', ''components'', ''Foo.vue''])"
    using path_join_segs[of "ds @ [''src'']" "[''components'', ''Foo.vue'']"] ds
    by (simp add: SRC_DIR_abs[OF ds h] ok_names)
  show "path_dirname (absPath (ds @ [''src'', ''components'', ''Foo.vue''])) = absPath (ds @ [''src'', ''components''])"
    using path_dirname_absPath[of "ds @ [''src'', ''components'']" "''Foo.vue''"] ds
    by (simp add: ok_names)
  show "path_basename (absPath (ds @ [''src'', ''components'', ''Foo.vue''])) = ''Foo.vue''"
    using path_basename_absPath[of "ds @ [''src'', ''components'']" "''Foo.vue''"] ds
    by (simp add: ok_names)
  show "path_dirname (absPath (ds @ [''src'', ''pages'', ''Home.vue''])) = absPath (ds @ [''src'', ''pages''])"
    using path_dirname_absPath[of "ds @ [''src'', ''pages'']" "''Home.vue''"] ds
    by (simp add: ok_names)
  show "path_relative c (absPath (ds @ [''src'', ''pages''])) (absPath (ds @ [''src'', ''components''])) = ''../components''"
    using path_relative_abs[of "ds @ [''src'', ''pages'']" "ds @ [''src'', ''components'']" c] ds
      relSegs_prefix[of ds "[''src'', ''pages'']" "[''src'', ''components'']"]
    by (simp add: ok_names)
  show "path_relative c (absPath (ds @ [''src'', ''pages''])) (absPath (ds @ [''src'', ''components'', ''Foo.vue''])) = ''../components/Foo.vue''"
    using path_relative_abs[of "ds @ [''src'', ''pages'']" "ds @ [''src'', ''components'', ''Foo.vue'']" c] ds
      relSegs_prefix[of ds "[''src'', ''pages'']" "[''src'', ''components'', ''Foo.vue'']"]
    by (simp add: ok_names)
qed

lemma mp_jsCallback_scenario:
  assumes ds: "list_all okSeg ds" and h: "script_dirname h = absPath ds"
  shows "mp_jsCallback h (absPath (ds @ [''src'', ''pages'', ''Home.vue'']))
           (''import Foo from '' @ [sq] @ ''@/components/Foo.vue'' @ [sq]) [''components/Foo.vue'']
         = ''import Foo from '' @ [sq] @ ''../components/Foo.vue'' @ [sq]"
  unfolding mp_jsCallback_def Let_def mp_getRelativePath_def
  by (simp add: scenario_paths[OF ds h] startsWith_def str_replace_def sq_def dq_def)

lemma jsNewImport_scenario:
  assumes ds: "list_all okSeg ds" and h: "script_dirname h = absPath ds"
  shows "jsNewImport h (absPath (ds @ [''src'', ''pages'', ''Home.vue''])) [''components/Foo.vue'']
         = ''from '' @ [sq] @ ''../components/Foo.vue'' @ [sq]"
  unfolding jsNewImport_def Let_def getRelativePath_def
  by (simp add: scenario_paths[OF ds h] replaceBackslashes_def backslash_def slash_def)

text \<open>
  C7. Wherever the project lies, the line \<^verbatim>\<open>import Foo from '@/components/Foo.vue';\<close>
  of the file \<^verbatim>\<open>src/pages/Home.vue\<close> is rewritten to
  \<^verbatim>\<open>import Foo from '../components/Foo.vue';\<close>, by updateJsImports of migrate-paths.js
  and by updateJsImports of the migration script.
\<close>

theorem scenario_js_rewrite:
  assumes "list_all okSeg ds" and "script_dirname h = absPath ds"
  shows "mp_updateJsImports h (absPath (ds @ [''src'', ''pages'', ''Home.vue'']))
           (''import Foo from '' @ [sq] @ ''@/components/Foo.vue'' @ [sq] @ '';'')
         = ''import Foo from '' @ [sq] @ ''../components/Foo.vue'' @ [sq] @ '';''
       \<and> fst (updateJsImports h (''import Foo from '' @ [sq] @ ''@/components/Foo.vue'' @ [sq] @ '';'')
           (absPath (ds @ [''src'', ''pages'', ''Home.vue''])))
         = ''import Foo from '' @ [sq] @ ''../components/Foo.vue'' @ [sq] @ '';''"
proof
  show "mp_updateJsImports h (absPath (ds @ [''src'', ''pages'', ''Home.vue'']))
           (''import Foo from '' @ [sq] @ ''@/components/Foo.vue'' @ [sq] @ '';'')
         = ''import Foo from '' @ [sq] @ ''../components/Foo.vue'' @ [sq] @ '';''"
    unfolding mp_updateJsImports_def scenario_scan_mp mp_jsCallback_scenario[OF assms]
    by simp
  show "fst (updateJsImports h (''import Foo from '' @ [sq] @ ''@/components/Foo.vue'' @ [sq] @ '';'')
           (absPath (ds @ [''src'', ''pages'', ''Home.vue''])))
         = ''import Foo from '' @ [sq] @ ''../components/Foo.vue'' @ [sq] @ '';''"
    unfolding updateJsImports_def Let_def replaceAllSt_fst scenario_scan jsNewImport_scenario[OF assms]
    by simp
qed

theorem scenario_js_rewrite_witness:
  "list_all okSeg [''proj''] \<and>
   mp_updateJsImports \<lparr>cwd = ''/'', script_dirname = ''/proj''\<rparr> ''/proj/src/pages/Home.vue''
           (''import Foo from '' @ [sq] @ ''@/components/Foo.vue'' @ [sq] @ '';'')
         = ''import Foo from '' @ [sq] @ ''../components/Foo.vue'' @ [sq] @ '';''"
  using scenario_js_rewrite[of "[''proj'']" "\<lparr>cwd = ''/'', script_dirname = ''/proj''\<rparr>"]
  by (simp add: okSeg_def slash_def absPath_def)

section \<open>Single statements\<close>

lemma jsRegex_stmt:
  assumes "ws \<noteq> []" "list_all isSpace ws" "isQuote q" "p \<noteq> []" "list_all notQuote p" "isQuote q'"
  shows "rx_match jsRegex ((''from'' @ ws @ [q] @ ''@/'' @ p @ [q']) @ rest) =
         Some (length (''from'' @ ws @ [q] @ ''@/'' @ p @ [q']), [p])"
  using consumes_match[OF jsRegex_consumes[OF assms], of rest] by simp

lemma scssRegex_stmt:
  assumes "w1 \<noteq> []" "list_all isSpace w1" "isQuote q" "p \<noteq> []" "list_all notQuote p" "isQuote q'"
    "w2 \<noteq> []" "list_all isSpace w2" "w3 \<noteq> []" "list_all isSpace w3"
    "a \<noteq> []" "\<not> isSpace (hd a)" "list_all notSemi a"
  shows "rx_match scssRegex
           ((''@use'' @ w1 @ [q] @ ''@/assets/'' @ p @ [q'] @ w2 @ ''as'' @ w3 @ a @ '';'') @ rest) =
         Some (length (''@use'' @ w1 @ [q] @ ''@/assets/'' @ p @ [q'] @ w2 @ ''as'' @ w3 @ a @ '';''), [p, a])"
  using consumes_match[OF scssRegex_consumes[OF assms], of rest] by simp

lemma scssAliasPattern_stmt:
  assumes "w1 \<noteq> []" "list_all isSpace w1" "isQuote q" "p \<noteq> []" "list_all notQuote p" "isQuote q'"
    "w2 \<noteq> []" "list_all isSpace w2" "w3 \<noteq> []" "list_all isSpace w3" "isLower c"
  shows "rx_match scssAliasPattern
           ((''@use'' @ w1 @ [q] @ ''@/assets/styles/'' @ p @ [q'] @ w2 @ ''as'' @ w3 @ [c]) @ rest) =
         Some (length (''@use'' @ w1 @ [q] @ ''@/assets/styles/'' @ p @ [q'] @ w2 @ ''as'' @ w3 @ [c]), [p, [c]])"
  using consumes_match[OF scssAliasPattern_consumes[OF assms], of rest] by simp

lemma replaceAll_Nil_rx: "rx_match r [] = None \<Longrightarrow> replaceAll r f [] = []"
  by simp

lemma replaceAll_single:
  assumes "rx_match r (u @ []) = Some (length u, cs)" "u \<noteq> []" "rx_match r [] = None"
  shows "replaceAll r f u = f u cs"
  using replaceAll_hit[OF assms(1) assms(2), of f] assms(3) by simp


section \<open>Quotes\<close>

lemma updateScssImports_single:
  assumes "isQuote q" "isQuote q'" "p \<noteq> []" "list_all notQuote p"
    and "w1 \<noteq> []" "list_all isSpace w1" "w2 \<noteq> []" "list_all isSpace w2"
    and "w3 \<noteq> []" "list_all isSpace w3"
    and "a \<noteq> []" "\<not> isSpace (hd a)" "list_all notSemi a"
  shows "fst (updateScssImports h
            (''@use'' @ w1 @ [q] @ ''@/assets/'' @ p @ [q'] @ w2 @ ''as'' @ w3 @ a @ '';'') F)
         = ''@use '' @ [sq] @ getRelativePath h F (path_join (ASSETS_DIR h) p) @ [sq]
           @ '' as '' @ a @ '';''"
proof -
  let ?u = "''@use'' @ w1 @ [q] @ ''@/assets/'' @ p @ [q'] @ w2 @ ''as'' @ w3 @ a @ '';''"
  have m: "rx_match scssRegex (?u @ []) = Some (length ?u, [p, a])"
    by (rule scssRegex_stmt) (use assms in simp_all)
  have "replaceAll scssRegex (\<lambda>mtch cs. scssNewImport h F cs) ?u = scssNewImport h F [p, a]"
    by (rule replaceAll_single[OF m]) (simp_all add: rx_match_Nil)
  then show ?thesis
    unfolding updateScssImports_def Let_def replaceAllSt_fst
    by (simp add: scssNewImport_def)
qed

lemma updateJsImports_single:
  assumes "isQuote q" "isQuote q'" "p \<noteq> []" "list_all notQuote p"
    and "w1 \<noteq> []" "list_all isSpace w1"
  shows "fst (updateJsImports h (''from'' @ w1 @ [q] @ ''@/'' @ p @ [q']) F)
         = ''from '' @ [sq] @ getRelativePath h F (path_join (SRC_DIR h) p) @ [sq]"
proof -
  let ?u = "''from'' @ w1 @ [q] @ ''@/'' @ p @ [q']"
  have m: "rx_match jsRegex (?u @ []) = Some (length ?u, [p])"
    by (rule jsRegex_stmt) (use assms in simp_all)
  have "replaceAll jsRegex (\<lambda>mtch cs. jsNewImport h F cs) ?u = jsNewImport h F [p]"
    by (rule replaceAll_single[OF m]) (simp_all add: rx_match_Nil)
  then show ?thesis
    unfolding updateJsImports_def Let_def replaceAllSt_fst
    by (simp add: jsNewImport_def)
qed

lemma mp_updateScssImports_single:
  assumes "isQuote q" "isQuote q'" "p \<noteq> []" "list_all notQuote p"
    and "w1 \<noteq> []" "list_all isSpace w1" "w2 \<noteq> []" "list_all isSpace w2"
    and "w3 \<noteq> []" "list_all isSpace w3" "isLower c"
  shows "mp_updateScssImports h F
            (''@use'' @ w1 @ [q] @ ''@/assets/styles/'' @ p @ [q'] @ w2 @ ''as'' @ w3 @ [c])
         = ''@use '' @ [sq]
           @ mp_getRelativePath h F (path_join (path_join (SRC_DIR h) ''assets'') ''styles'')
           @ ''/''
           @ (let clean1 = (if startsWith p ''_'' then drop 1 p else p)
              in if endsWith clean1 ''.scss'' then take (length clean1 - 5) clean1 else clean1)
           @ [sq] @ '' as '' @ [c]"
proof -
  let ?u = "''@use'' @ w1 @ [q] @ ''@/assets/styles/'' @ p @ [q'] @ w2 @ ''as'' @ w3 @ [c]"
  have m: "rx_match scssAliasPattern (?u @ []) = Some (length ?u, [p, [c]])"
    by (rule scssAliasPattern_stmt) (use assms in simp_all)
  have "replaceAll scssAliasPattern (mp_scssCallback h F) ?u = mp_scssCallback h F ?u [p, [c]]"
    by (rule replaceAll_single[OF m]) (simp_all add: rx_match_Nil)
  then show ?thesis
    unfolding mp_updateScssImports_def
    by (simp add: mp_scssCallback_def Let_def)
qed

text \<open>
  A matched @use statement or \<^verbatim>\<open>from\<close> clause is written back with
  single quotes, whichever quotes it had: a single-quoted import keeps its quotes, a
  double-quoted one gets single quotes. This holds for updateScssImports and
  updateJsImports of the migration script and for updateScssImports of migrate-paths.js,
  for any white space between the words and any alias.
\<close>

lemma quotes_become_single:
  assumes "isQuote q" "isQuote q'" "p \<noteq> []" "list_all notQuote p"
    and "w1 \<noteq> []" "list_all isSpace w1" "w2 \<noteq> []" "list_all isSpace w2"
    and "w3 \<noteq> []" "list_all isSpace w3"
    and "a \<noteq> []" "\<not> isSpace (hd a)" "list_all notSemi a" "isLower c"
  shows "fst (updateScssImports h
            (''@use'' @ w1 @ [q] @ ''@/assets/'' @ p @ [q'] @ w2 @ ''as'' @ w3 @ a @ '';'') F)
         = ''@use '' @ [sq] @ getRelativePath h F (path_join (ASSETS_DIR h) p) @ [sq]
           @ '' as '' @ a @ '';''
       \<and> fst (updateJsImports h (''from'' @ w1 @ [q] @ ''@/'' @ p @ [q']) F)
         = ''from '' @ [sq] @ getRelativePath h F (path_join (SRC_DIR h) p) @ [sq]
       \<and> mp_updateScssImports h F
            (''@use'' @ w1 @ [q] @ ''@/assets/styles/'' @ p @ [q'] @ w2 @ ''as'' @ w3 @ [c])
         = ''@use '' @ [sq]
           @ mp_getRelativePath h F (path_join (path_join (SRC_DIR h) ''assets'') ''styles'')
           @ ''/''
           @ (let clean1 = (if startsWith p ''_'' then drop 1 p else p)
              in if endsWith clean1 ''.scss'' then take (length clean1 - 5) clean1 else clean1)
           @ [sq] @ '' as '' @ [c]"
  using updateScssImports_single[OF assms(1-13)] updateJsImports_single[OF assms(1-6)]
    mp_updateScssImports_single[OF assms(1-10) assms(14)]
  by (intro conjI)


section \<open>Partials\<close>

lemma path_basename_tail:
  assumes "n \<noteq> []" "slash \<notin> set n"
  shows "path_basename (r @ slash # n) = n"
proof -
  from assms have ne: "rev n \<noteq> []" and no: "\<forall>x\<in>set (rev n). x \<noteq> slash" by auto
  have "hd (rev n) \<noteq> slash" using ne no by (cases "rev n") auto
  then have "dropWhile (\<lambda>c. c = slash) (rev n @ slash # rev r) = rev n @ slash # rev r"
    using ne by (cases "rev n") auto
  moreover have "takeWhile (\<lambda>c. c \<noteq> slash) (rev n @ slash # rev r) = rev n"
    using no by (simp add: takeWhile_tail)
  ultimately show ?thesis by (simp add: path_basename_def)
qed

lemma clean_both:
  "(let clean1 = (if startsWith (''_'' @ n @ ''.scss'') ''_'' then drop 1 (''_'' @ n @ ''.scss'') else ''_'' @ n @ ''.scss'')
    in if endsWith clean1 ''.scss'' then take (length clean1 - 5) clean1 else clean1) = n"
  by (simp add: startsWith_def endsWith_def)

lemma clean_underscore:
  "\<not> endsWith n ''.scss'' \<Longrightarrow>
   (let clean1 = (if startsWith (''_'' @ n) ''_'' then drop 1 (''_'' @ n) else ''_'' @ n)
    in if endsWith clean1 ''.scss'' then take (length clean1 - 5) clean1 else clean1) = n"
  by (simp add: startsWith_def)

lemma clean_extension:
  "n \<noteq> [] \<Longrightarrow> hd n \<noteq> CHR ''_'' \<Longrightarrow>
   (let clean1 = (if startsWith (n @ ''.scss'') ''_'' then drop 1 (n @ ''.scss'') else n @ ''.scss'')
    in if endsWith clean1 ''.scss'' then take (length clean1 - 5) clean1 else clean1) = n"
  by (cases n) (simp_all add: startsWith_def endsWith_def)

text \<open>
  In updateScssImports of migrate-paths.js, when the path after
  \<^verbatim>\<open>@/assets/styles/\<close> is a single file name \<open>n\<close> with an underscore in front, the
  extension \<^verbatim>\<open>.scss\<close> behind, or both, the rewritten path is the relative path of the
  styles directory, a slash and \<open>n\<close>; its final segment is \<open>n\<close>.
\<close>

lemma partial_stripping:
  assumes "isQuote q" "isQuote q'" "n \<noteq> []" "list_all notQuote n" "slash \<notin> set n"
    and "hd n \<noteq> CHR ''_''" "\<not> endsWith n ''.scss''"
    and "w1 \<noteq> []" "list_all isSpace w1" "w2 \<noteq> []" "list_all isSpace w2"
    and "w3 \<noteq> []" "list_all isSpace w3" "isLower c"
    and "p = ''_'' @ n @ ''.scss'' \<or> p = ''_'' @ n \<or> p = n @ ''.scss''"
  shows "mp_updateScssImports h F
            (''@use'' @ w1 @ [q] @ ''@/assets/styles/'' @ p @ [q'] @ w2 @ ''as'' @ w3 @ [c])
         = ''@use '' @ [sq]
           @ (mp_getRelativePath h F (path_join (path_join (SRC_DIR h) ''assets'') ''styles'')
              @ ''/'' @ n)
           @ [sq] @ '' as '' @ [c]
       \<and> path_basename
            (mp_getRelativePath h F (path_join (path_join (SRC_DIR h) ''assets'') ''styles'')
             @ ''/'' @ n) = n"
proof
  have nq: "list_all notQuote p" "p \<noteq> []"
    using assms(3,4,15) by (auto simp: notQuote_def isQuote_def sq_def dq_def)
  have cl: "(let clean1 = (if startsWith p ''_'' then drop 1 p else p)
      in if endsWith clean1 ''.scss'' then take (length clean1 - 5) clean1 else clean1) = n"
  proof -
    { assume e: "p = ''_'' @ n @ ''.scss''"
      have ?thesis unfolding e by (rule clean_both) }
    moreover
    { assume e: "p = ''_'' @ n"
      have ?thesis unfolding e by (rule clean_underscore[OF assms(7)]) }
    moreover
    { assume e: "p = n @ ''.scss''"
      have ?thesis unfolding e by (rule clean_extension[OF assms(3,6)]) }
    ultimately show ?thesis using assms(15) by blast
  qed
  show "mp_updateScssImports h F
            (''@use'' @ w1 @ [q] @ ''@/assets/styles/'' @ p @ [q'] @ w2 @ ''as'' @ w3 @ [c])
         = ''@use '' @ [sq]
           @ (mp_getRelativePath h F (path_join (path_join (SRC_DIR h) ''assets'') ''styles'')
              @ ''/'' @ n)
           @ [sq] @ '' as '' @ [c]"
    using mp_updateScssImports_single[OF assms(1,2) nq(2,1) assms(8-14), of h F]
    unfolding cl by simp
  show "path_basename
            (mp_getRelativePath h F (path_join (path_join (SRC_DIR h) ''assets'') ''styles'')
             @ ''/'' @ n) = n"
    using path_basename_tail[OF assms(3,5)] by (simp add: slash_def)
qed


section \<open>Frame and no-op\<close>






























section \<open>Round trip\<close>

lemma set_joinWith: "set (joinWith sep xs) \<subseteq> set sep \<union> \<Union> (set ` set xs)"
  by (induction xs) (auto simp: joinWith_Cons)

lemma joinWith_chars: "g \<in> set xs \<Longrightarrow> set g \<subseteq> set (joinWith sep xs)"
  by (induction xs) (auto simp: joinWith_Cons)

lemma replaceBackslashes_id: "backslash \<notin> set s \<Longrightarrow> replaceBackslashes s = s"
  by (induction s) (auto simp: replaceBackslashes_def)

lemma rel_no_backslash:
  assumes "backslash \<notin> set (absPath ts)"
  shows "backslash \<notin> set (joinWith ''/'' (relSegs ds ts))"
proof
  assume "backslash \<in> set (joinWith ''/'' (relSegs ds ts))"
  then have "backslash \<in> set ''/'' \<union> \<Union> (set ` set (relSegs ds ts))"
    using set_joinWith by blast
  then obtain g where g: "g \<in> set (relSegs ds ts)" "backslash \<in> set g"
    by (auto simp: backslash_def)
  from g(1) relSegs_set[of ds ts] have "g = ''..'' \<or> g \<in> set ts" by auto
  then show False
  proof
    assume "g = ''..''"
    with g(2) show False by (simp add: backslash_def)
  next
    assume "g \<in> set ts"
    then have "set g \<subseteq> set (absPath ts)"
      using joinWith_chars[of g ts "''/''"] by (auto simp: absPath_def)
    with g(2) assms show False by blast
  qed
qed

lemma target_abs:
  assumes "isAbsolute root" "P \<noteq> []" "last P \<noteq> slash"
  shows "list_all okSeg (normSegs False [] (splitOn slash (tl root @ slash # P)))
       \<and> path_join root P = absPath (normSegs False [] (splitOn slash (tl root @ slash # P)))"
proof
  let ?ts = "normSegs False [] (splitOn slash (tl root @ slash # P))"
  show ok: "list_all okSeg ?ts"
    by (rule normSegs_clean) (simp_all add: splitOn_noSep_all)
  from assms(1) obtain r where r: "root = slash # r"
    by (cases root) (auto simp: isAbsolute_def)
  have "path_join root P = path_normalize (slash # r @ slash # P)"
    unfolding r by (rule path_join_abs[OF assms(2)])
  also have "\<dots> = (if ?ts = [] then [slash] else absPath ?ts)"
    unfolding path_normalize_abs Let_def using assms(2,3) by (simp add: r)
  also have "\<dots> = absPath ?ts" by (simp add: absPath_Nil)
  finally show "path_join root P = absPath ?ts" .
qed

lemma rt_mig:
  assumes fs: "list_all okSeg (ds @ [f])" and ts: "list_all okSeg ts"
    and nb: "backslash \<notin> set (absPath ts)"
  shows "path_join (path_dirname (absPath (ds @ [f])))
           (getRelativePath h (absPath (ds @ [f])) (absPath ts)) = absPath ts"
proof -
  from fs have ds: "list_all okSeg ds" by simp
  have g: "getRelativePath h (absPath (ds @ [f])) (absPath ts) = joinWith ''/'' (relSegs ds ts)"
    unfolding getRelativePath_def Let_def path_dirname_absPath[OF fs] path_relative_abs[OF ds ts]
    by (rule replaceBackslashes_id[OF rel_no_backslash[OF nb]])
  show ?thesis
  proof (cases "relSegs ds ts = []")
    case True
    then have "ds = ts" by (simp add: relSegs_Nil_iff)
    then show ?thesis
      unfolding g path_dirname_absPath[OF fs] using True join_back_same[OF ds] by simp
  next
    case False
    show ?thesis
      unfolding g path_dirname_absPath[OF fs] by (rule join_back[OF ds ts False])
  qed
qed

lemma rt_mp:
  assumes fs: "list_all okSeg (ds @ [f])" and ts: "list_all okSeg ts" and ne: "ts \<noteq> ds"
  shows "path_join (path_dirname (absPath (ds @ [f])))
           (mp_getRelativePath h (absPath (ds @ [f])) (absPath ts)) = absPath ts"
proof -
  from fs have ds: "list_all okSeg ds" by simp
  from ne have rs: "relSegs ds ts \<noteq> []" by (auto simp: relSegs_Nil_iff)
  show ?thesis
    unfolding mp_getRelativePath_def Let_def path_dirname_absPath[OF fs] path_relative_abs[OF ds ts]
    using join_back[OF ds ts rs] join_back_dot[OF ds ts rs] by simp
qed

text \<open>
  Let the importing file be an absolute normalized path, the alias root
  an absolute path, and \<open>P\<close> a non-empty path that does not end with a slash. For
  getRelativePath of the migration script, joining its result to the directory of the
  file gives the target again when the target holds no backslash. For getRelativePath of
  migrate-paths.js, it gives the target again when the target is not the directory of
  the file itself.
\<close>

lemma round_trip:
  assumes "list_all okSeg fs" "fs \<noteq> []" "isAbsolute root" "P \<noteq> []" "last P \<noteq> slash"
  shows "(backslash \<notin> set (path_join root P) \<longrightarrow>
            path_join (path_dirname (absPath fs)) (getRelativePath h (absPath fs) (path_join root P))
            = path_join root P)
       \<and> (path_join root P \<noteq> path_dirname (absPath fs) \<longrightarrow>
            path_join (path_dirname (absPath fs)) (mp_getRelativePath h (absPath fs) (path_join root P))
            = path_join root P)"
proof -
  from assms(2) obtain ds f where fs: "fs = ds @ [f]" by (cases fs rule: rev_cases) auto
  let ?ts = "normSegs False [] (splitOn slash (tl root @ slash # P))"
  from target_abs[OF assms(3-5)] have ts: "list_all okSeg ?ts" and T: "path_join root P = absPath ?ts"
    by simp_all
  have ok: "list_all okSeg (ds @ [f])" using assms(1) fs by simp
  show ?thesis
  proof (intro conjI impI)
    assume "backslash \<notin> set (path_join root P)"
    then show "path_join (path_dirname (absPath fs)) (getRelativePath h (absPath fs) (path_join root P))
            = path_join root P"
      unfolding T fs by (rule rt_mig[OF ok ts])
  next
    assume "path_join root P \<noteq> path_dirname (absPath fs)"
    then have "?ts \<noteq> ds" unfolding T fs path_dirname_absPath[OF ok] by auto
    then show "path_join (path_dirname (absPath fs)) (mp_getRelativePath h (absPath fs) (path_join root P))
            = path_join root P"
      unfolding T fs by (rule rt_mp[OF ok ts])
  qed
qed


section \<open>Evaluations\<close>

text \<open>
  C1 on the code: for the file \<^verbatim>\<open>/proj/src/pages/Home.vue\<close> and the path \<^verbatim>\<open>pages\<close>,
  whose target is the directory of the file, getRelativePath of migrate-paths.js gives
  \<^verbatim>\<open>./\<close>, and joining that to the directory gives the target with a slash at its end;
  getRelativePath of the migration script gives the empty path and the target comes
  back. That is the case of every import of a file in the same directory:
  \<^verbatim>\<open>'@/pages/About.vue'\<close> becomes \<^verbatim>\<open>'.//About.vue'\<close>. For a name with a backslash it is
  the migration script that does not come back to the target, since it turns the
  backslash into a slash, and migrate-paths.js that does.
\<close>

theorem round_trip_failures:
  "path_join ''/proj/src'' ''pages'' = ''/proj/src/pages''
   \<and> mp_getRelativePath exampleHost ''/proj/src/pages/Home.vue'' (path_join ''/proj/src'' ''pages'')
     = ''./''
   \<and> path_join (path_dirname ''/proj/src/pages/Home.vue'')
        (mp_getRelativePath exampleHost ''/proj/src/pages/Home.vue'' (path_join ''/proj/src'' ''pages''))
     = ''/proj/src/pages/''
   \<and> getRelativePath exampleHost ''/proj/src/pages/Home.vue'' (path_join ''/proj/src'' ''pages'')
     = []
   \<and> path_join (path_dirname ''/proj/src/pages/Home.vue'')
        (getRelativePath exampleHost ''/proj/src/pages/Home.vue'' (path_join ''/proj/src'' ''pages''))
     = ''/proj/src/pages''
   \<and> mp_updateJsImports exampleHost ''/proj/src/pages/Home.vue''
        (''import About from '' @ [sq] @ ''@/pages/About.vue'' @ [sq] @ '';'')
     = ''import About from '' @ [sq] @ ''.//About.vue'' @ [sq] @ '';''
   \<and> path_join ''/proj/src'' (''a'' @ [backslash] @ ''b'') = ''/proj/src/a'' @ [backslash] @ ''b''
   \<and> getRelativePath exampleHost ''/proj/src/main.ts''
        (path_join ''/proj/src'' (''a'' @ [backslash] @ ''b''))
     = ''a/b''
   \<and> path_join (path_dirname ''/proj/src/main.ts'')
        (getRelativePath exampleHost ''/proj/src/main.ts''
           (path_join ''/proj/src'' (''a'' @ [backslash] @ ''b'')))
     = ''/proj/src/a/b''
   \<and> path_join (path_dirname ''/proj/src/main.ts'')
        (mp_getRelativePath exampleHost ''/proj/src/main.ts''
           (path_join ''/proj/src'' (''a'' @ [backslash] @ ''b'')))
     = ''/proj/src/a'' @ [backslash] @ ''b''"
  by code_simp

text \<open>
  C2 on the code: getRelativePath of the migration script puts nothing in front of a
  path that goes down from the directory of the file, and getRelativePath of
  migrate-paths.js puts nothing in front of a name that starts with a dot. The rewritten
  imports are bare names.
\<close>

theorem output_format_failures:
  "getRelativePath exampleHost ''/proj/src/main.ts'' (path_join (SRC_DIR exampleHost) ''components/Foo.vue'')
     = ''components/Foo.vue''
   \<and> mp_getRelativePath exampleHost ''/proj/src/main.ts''
       (path_dirname (path_join (SRC_DIR exampleHost) ''.generated/routes'')) = ''.generated''
   \<and> fst (updateJsImports exampleHost
         (''import Foo from '' @ [sq] @ ''@/components/Foo.vue'' @ [sq] @ '';'') ''/proj/src/main.ts'')
     = ''import Foo from '' @ [sq] @ ''components/Foo.vue'' @ [sq] @ '';''
   \<and> mp_updateJsImports exampleHost ''/proj/src/main.ts''
         (''import routes from '' @ [sq] @ ''@/.generated/routes'' @ [sq] @ '';'')
     = ''import routes from '' @ [sq] @ ''.generated/routes'' @ [sq] @ '';''"
  by code_simp

text \<open>
  C3 on the code: updateScssImports of migrate-paths.js looks for the underscore at the
  start of the whole captured path, not of its final segment. The underscore of a
  partial in a subdirectory is kept, and the underscore of a directory is removed, which
  names another directory. updateScssImports of the migration script removes neither
  the underscore nor the extension, where migrate-paths.js removes both.
\<close>

theorem partial_stripping_failures:
  "mp_updateScssImports exampleHost ''/proj/src/components/Button.vue''
     (''@use '' @ [sq] @ ''@/assets/styles/base/_variables.scss'' @ [sq] @ '' as v;'')
   = ''@use '' @ [sq] @ ''../assets/styles/base/_variables'' @ [sq] @ '' as v;''
   \<and> mp_updateScssImports exampleHost ''/proj/src/components/Button.vue''
     (''@use '' @ [sq] @ ''@/assets/styles/_base/variables.scss'' @ [sq] @ '' as v;'')
   = ''@use '' @ [sq] @ ''../assets/styles/base/variables'' @ [sq] @ '' as v;''
   \<and> fst (updateScssImports exampleHost
         (''@use '' @ [sq] @ ''@/assets/styles/_variables.scss'' @ [sq] @ '' as v;'')
         ''/proj/src/components/Button.vue'')
   = ''@use '' @ [sq] @ ''../assets/styles/_variables.scss'' @ [sq] @ '' as v;''
   \<and> mp_updateScssImports exampleHost ''/proj/src/components/Button.vue''
     (''@use '' @ [sq] @ ''@/assets/styles/_variables.scss'' @ [sq] @ '' as v;'')
   = ''@use '' @ [sq] @ ''../assets/styles/variables'' @ [sq] @ '' as v;''"
  by code_simp

text \<open>
  C4 on the code: updateJsImports and updateScssImports of the migration script and
  updateScssImports of migrate-paths.js write an import that had double quotes with
  single quotes; updateJsImports of migrate-paths.js keeps the double quotes.
\<close>

theorem quotes_not_preserved:
  "fst (updateJsImports exampleHost
         (''import Foo from '' @ [dq] @ ''@/components/Foo.vue'' @ [dq] @ '';'')
         ''/proj/src/pages/Home.vue'')
   = ''import Foo from '' @ [sq] @ ''../components/Foo.vue'' @ [sq] @ '';''
   \<and> fst (updateScssImports exampleHost
         (''@use '' @ [dq] @ ''@/assets/styles/variables'' @ [dq] @ '' as v;'')
         ''/proj/src/components/Button.vue'')
   = ''@use '' @ [sq] @ ''../assets/styles/variables'' @ [sq] @ '' as v;''
   \<and> mp_updateScssImports exampleHost ''/proj/src/components/Button.vue''
         (''@use '' @ [dq] @ ''@/assets/styles/variables'' @ [dq] @ '' as v;'')
     = ''@use '' @ [sq] @ ''../assets/styles/variables'' @ [sq] @ '' as v;''
   \<and> mp_updateJsImports exampleHost ''/proj/src/pages/Home.vue''
         (''import Foo from '' @ [dq] @ ''@/components/Foo.vue'' @ [dq] @ '';'')
     = ''import Foo from '' @ [dq] @ ''../components/Foo.vue'' @ [dq] @ '';''"
  by code_simp


text \<open>
  C6 on the code: in the migration script the alias of a @use statement runs to the
  next semicolon. Of two @use statements on two lines with no semicolon after the first,
  the first pass rewrites the first and leaves the second, still in alias form, inside
  the alias it copies; the second pass rewrites the second and reports a modification.
  migrate-paths.js rewrites both in its first pass and changes nothing in the second.
  And since getRelativePath of the migration script puts no \<^verbatim>\<open>./\<close> in front, the path
  \<^verbatim>\<open>@/@/x\<close> in \<^verbatim>\<open>src/main.ts\<close> becomes \<^verbatim>\<open>@/x\<close>, which the second pass rewrites again;
  migrate-paths.js writes \<^verbatim>\<open>./@/x\<close> and leaves that alone.
\<close>

theorem idempotence_failures:
  "migrateFile exampleHost ''/proj/src/pages/Home.vue''
     (''@use '' @ [sq] @ ''@/assets/styles/a'' @ [sq] @ '' as v'' @ [CHR 0x0A]
      @ ''@use '' @ [sq] @ ''@/assets/styles/b'' @ [sq] @ '' as m;'')
   = (''@use '' @ [sq] @ ''../assets/styles/a'' @ [sq] @ '' as v'' @ [CHR 0x0A]
      @ ''@use '' @ [sq] @ ''@/assets/styles/b'' @ [sq] @ '' as m;'',
      [(''@use '' @ [sq] @ ''@/assets/styles/a'' @ [sq] @ '' as v'' @ [CHR 0x0A]
        @ ''@use '' @ [sq] @ ''@/assets/styles/b'' @ [sq] @ '' as m;'',
        ''@use '' @ [sq] @ ''../assets/styles/a'' @ [sq] @ '' as v'' @ [CHR 0x0A]
        @ ''@use '' @ [sq] @ ''@/assets/styles/b'' @ [sq] @ '' as m;'')],
      [], True)
   \<and> migrateFile exampleHost ''/proj/src/pages/Home.vue''
     (''@use '' @ [sq] @ ''../assets/styles/a'' @ [sq] @ '' as v'' @ [CHR 0x0A]
      @ ''@use '' @ [sq] @ ''@/assets/styles/b'' @ [sq] @ '' as m;'')
   = (''@use '' @ [sq] @ ''../assets/styles/a'' @ [sq] @ '' as v'' @ [CHR 0x0A]
      @ ''@use '' @ [sq] @ ''../assets/styles/b'' @ [sq] @ '' as m;'',
      [(''@use '' @ [sq] @ ''@/assets/styles/b'' @ [sq] @ '' as m;'',
        ''@use '' @ [sq] @ ''../assets/styles/b'' @ [sq] @ '' as m;'')],
      [], True)
   \<and> mp_migrateFile exampleHost ''/proj/src/pages/Home.vue''
     (''@use '' @ [sq] @ ''@/assets/styles/a'' @ [sq] @ '' as v'' @ [CHR 0x0A]
      @ ''@use '' @ [sq] @ ''@/assets/styles/b'' @ [sq] @ '' as m;'')
   = (''@use '' @ [sq] @ ''../assets/styles/a'' @ [sq] @ '' as v'' @ [CHR 0x0A]
      @ ''@use '' @ [sq] @ ''../assets/styles/b'' @ [sq] @ '' as m;'', True)
   \<and> mp_migrateFile exampleHost ''/proj/src/pages/Home.vue''
     (''@use '' @ [sq] @ ''../assets/styles/a'' @ [sq] @ '' as v'' @ [CHR 0x0A]
      @ ''@use '' @ [sq] @ ''../assets/styles/b'' @ [sq] @ '' as m;'')
   = (''@use '' @ [sq] @ ''../assets/styles/a'' @ [sq] @ '' as v'' @ [CHR 0x0A]
      @ ''@use '' @ [sq] @ ''../assets/styles/b'' @ [sq] @ '' as m;'', False)
   \<and> migrateFile exampleHost ''/proj/src/main.ts''
     (''import x from '' @ [sq] @ ''@/@/x'' @ [sq] @ '';'')
   = (''import x from '' @ [sq] @ ''@/x'' @ [sq] @ '';'', [],
      [(''from '' @ [sq] @ ''@/@/x'' @ [sq], ''from '' @ [sq] @ ''@/x'' @ [sq])], True)
   \<and> migrateFile exampleHost ''/proj/src/main.ts''
     (''import x from '' @ [sq] @ ''@/x'' @ [sq] @ '';'')
   = (''import x from '' @ [sq] @ ''x'' @ [sq] @ '';'', [],
      [(''from '' @ [sq] @ ''@/x'' @ [sq], ''from '' @ [sq] @ ''x'' @ [sq])], True)
   \<and> mp_migrateFile exampleHost ''/proj/src/main.ts''
     (''import x from '' @ [sq] @ ''@/@/x'' @ [sq] @ '';'')
   = (''import x from '' @ [sq] @ ''./@/x'' @ [sq] @ '';'', True)
   \<and> mp_migrateFile exampleHost ''/proj/src/main.ts''
     (''import x from '' @ [sq] @ ''./@/x'' @ [sq] @ '';'')
   = (''import x from '' @ [sq] @ ''./@/x'' @ [sq] @ '';'', False)"
  by code_simp

text \<open>
  C8 on the code: the pattern of migrate-paths.js wants a lower-case letter after
  \<^verbatim>\<open>as\<close>, so a statement whose alias is \<^verbatim>\<open>Vars\<close> is left as it is; the migration
  script rewrites it.
\<close>

theorem uppercase_alias_not_rewritten:
  "mp_updateScssImports exampleHost ''/proj/src/components/Button.vue''
     (''@use '' @ [sq] @ ''@/assets/styles/variables'' @ [sq] @ '' as Vars;'')
   = ''@use '' @ [sq] @ ''@/assets/styles/variables'' @ [sq] @ '' as Vars;''
   \<and> fst (updateScssImports exampleHost
         (''@use '' @ [sq] @ ''@/assets/styles/variables'' @ [sq] @ '' as Vars;'')
         ''/proj/src/components/Button.vue'')
     = ''@use '' @ [sq] @ ''../assets/styles/variables'' @ [sq] @ '' as Vars;''"
  by code_simp


end
